theory Spec2Isabelle
  imports Main "HOL-Library.AList"
begin

section \<open>Strings and character classes\<close>

text \<open>
  A Python \<open>str\<close> is a sequence of Unicode code points; it is modelled as a list of
  naturals, one per code point, so that \<open>length\<close>, \<open>take\<close> and the regular
  expressions count what Python counts. \<open>lit\<close> turns an ASCII literal of the
  source into that representation.
\<close>

type_synonym pystr = "nat list"

definition lit :: "string \<Rightarrow> pystr" where
  "lit s = map of_char s"

text \<open>
  The classes \<open>\s\<close>, \<open>\w\<close> and \<open>\d\<close> of the \<open>re\<close> module and
  \<open>str.strip\<close> are fixed by the source for ASCII; beyond ASCII they are read from
  the interpreter's Unicode tables, which are not part of the repository and are taken
  as a parameter. \<open>uni_fold c p\<close> says that the non-ASCII code point \<open>c\<close> matches
  the pattern letter \<open>p\<close> under \<open>re.I\<close>.
\<close>

record ucd =
  uni_space :: "nat \<Rightarrow> bool"
  uni_alnum :: "nat \<Rightarrow> bool"
  uni_decimal :: "nat \<Rightarrow> bool"
  uni_fold :: "nat \<Rightarrow> nat \<Rightarrow> bool"

definition ascii_ucd :: ucd where
  "ascii_ucd = \<lparr>uni_space = (\<lambda>c. False), uni_alnum = (\<lambda>c. False),
                 uni_decimal = (\<lambda>c. False), uni_fold = (\<lambda>c p. False)\<rparr>"

definition is_space :: "ucd \<Rightarrow> nat \<Rightarrow> bool" where
  "is_space U c = ((9 \<le> c \<and> c \<le> 13) \<or> (28 \<le> c \<and> c \<le> 32) \<or> (128 \<le> c \<and> uni_space U c))"

definition is_digit :: "ucd \<Rightarrow> nat \<Rightarrow> bool" where
  "is_digit U c = ((48 \<le> c \<and> c \<le> 57) \<or> (128 \<le> c \<and> uni_decimal U c))"

definition is_word :: "ucd \<Rightarrow> nat \<Rightarrow> bool" where
  "is_word U c = ((48 \<le> c \<and> c \<le> 57) \<or> (65 \<le> c \<and> c \<le> 90) \<or> (97 \<le> c \<and> c \<le> 122)
                  \<or> c = 95 \<or> (128 \<le> c \<and> uni_alnum U c))"

text \<open>\<open>s.strip()\<close>: leading and trailing whitespace removed.\<close>

definition strip :: "ucd \<Rightarrow> pystr \<Rightarrow> pystr" where
  "strip U s = rev (dropWhile (is_space U) (rev (dropWhile (is_space U) s)))"

section \<open>Text cleaning\<close>

text \<open>
  \<open>re.sub(r'\s+', ' ', text)\<close>: scanning from the left, every maximal run of
  whitespace is replaced by one space (code point 32).
\<close>

function sub_ws :: "ucd \<Rightarrow> pystr \<Rightarrow> pystr" where
  "sub_ws U [] = []"
| "sub_ws U (c # cs) =
     (if is_space U c then 32 # sub_ws U (dropWhile (is_space U) cs)
      else c # sub_ws U cs)"
  by pat_completeness auto
termination
  by (relation "measure (\<lambda>(U, s). length s)")
     (auto simp: length_dropWhile_le le_imp_less_Suc)

text \<open>
  \<open>re.sub(r'[^\w\s.,!?-]', '', text)\<close>: a character stays when it is a word
  character, whitespace or one of \<open>. , ! ? -\<close>.
\<close>

definition kept :: "ucd \<Rightarrow> nat \<Rightarrow> bool" where
  "kept U c = (is_word U c \<or> is_space U c \<or> c \<in> set (lit ''.,!?-''))"

definition sub_special :: "ucd \<Rightarrow> pystr \<Rightarrow> pystr" where
  "sub_special U s = filter (kept U) s"

definition clean_text :: "ucd \<Rightarrow> pystr \<Rightarrow> pystr" where
  "clean_text U text = strip U (sub_special U (sub_ws U text))"

section \<open>The parsed document\<close>

text \<open>
  \<open>BeautifulSoup(response.text, 'html.parser')\<close> is a library call; the model
  starts from the tree it returns. A node is a text string (\<open>NavigableString\<close>,
  the kind \<open>get_text\<close> collects), another string (comment, doctype and the like,
  which \<open>get_text\<close> skips) or a tag with its name, the two attributes the program
  reads (\<open>href\<close>, and \<open>class\<close> as the list of class tokens the parser
  produces) and its children. The document is the list of the root's children.
\<close>

datatype node =
    Text pystr
  | Other pystr
  | Elem (name: pystr) (href: "pystr option") (classes: "pystr list option") (children: "node list")

datatype pyval = PyNone | PyStr pystr

text \<open>\<open>sep.join(parts)\<close>.\<close>

fun join :: "pystr \<Rightarrow> pystr list \<Rightarrow> pystr" where
  "join sep [] = []"
| "join sep [x] = x"
| "join sep (x # y # ys) = x @ sep @ join sep (y # ys)"

text \<open>
  \<open>soup.find(...)\<close>: depth-first search in document order that stops at the first
  tag satisfying the filter.
\<close>

fun soup_find :: "(node \<Rightarrow> bool) \<Rightarrow> node list \<Rightarrow> node option" where
  "soup_find P [] = None"
| "soup_find P (Text t # ns) = soup_find P ns"
| "soup_find P (Other t # ns) = soup_find P ns"
| "soup_find P (Elem n h c ch # ns) =
     (if P (Elem n h c ch) then Some (Elem n h c ch)
      else (case soup_find P ch of Some r \<Rightarrow> Some r | None \<Rightarrow> soup_find P ns))"

definition named :: "pystr \<Rightarrow> node \<Rightarrow> bool" where
  "named tag nd = (case nd of Elem n h c ch \<Rightarrow> n = tag | _ \<Rightarrow> False)"

text \<open>
  \<open>re.compile(r'content|main|article', re.I).search\<close>. Under \<open>re.I\<close> a
  lower-case ASCII pattern letter \<open>p\<close> matches itself, its upper-case form and the
  non-ASCII code points the Unicode tables fold to it.
\<close>

definition ci_eq :: "ucd \<Rightarrow> nat \<Rightarrow> nat \<Rightarrow> bool" where
  "ci_eq U p c = (c = p \<or> c + 32 = p \<or> (128 \<le> c \<and> uni_fold U c p))"

fun ci_prefix :: "ucd \<Rightarrow> pystr \<Rightarrow> pystr \<Rightarrow> bool" where
  "ci_prefix U [] s = True"
| "ci_prefix U (p # ps) [] = False"
| "ci_prefix U (p # ps) (c # cs) = (ci_eq U p c \<and> ci_prefix U ps cs)"

fun ci_search :: "ucd \<Rightarrow> pystr \<Rightarrow> pystr \<Rightarrow> bool" where
  "ci_search U pat [] = ci_prefix U pat []"
| "ci_search U pat (c # cs) = (ci_prefix U pat (c # cs) \<or> ci_search U pat cs)"

definition class_re_search :: "ucd \<Rightarrow> pystr \<Rightarrow> bool" where
  "class_re_search U s =
     (ci_search U (lit ''content'') s \<or> ci_search U (lit ''main'') s \<or> ci_search U (lit ''article'') s)"

text \<open>
  BeautifulSoup tests a regular expression against a multi-valued attribute token by
  token, then against the tokens joined by spaces; a tag without the attribute does not
  match.
\<close>

definition class_matches :: "ucd \<Rightarrow> node \<Rightarrow> bool" where
  "class_matches U nd =
     (case classes nd of
        None \<Rightarrow> False
      | Some cls \<Rightarrow> list_ex (class_re_search U) cls \<or> class_re_search U (join (lit '' '') cls))"

definition div_with_class :: "ucd \<Rightarrow> node \<Rightarrow> bool" where
  "div_with_class U nd = (named (lit ''div'') nd \<and> class_matches U nd)"

section \<open>Content extraction\<close>

definition unwanted_tags :: "pystr list" where
  "unwanted_tags = [lit ''header'', lit ''footer'', lit ''nav'', lit ''script'', lit ''style'',
                    lit ''iframe'', lit ''form'']"

text \<open>
  \<open>for element in soup([...]): element.decompose()\<close>: every tag with one of the
  listed names is destroyed with its whole subtree; the soup is changed in place, so the
  function returns the changed tree.
\<close>

fun decompose_unwanted :: "node list \<Rightarrow> node list" where
  "decompose_unwanted [] = []"
| "decompose_unwanted (Text t # ns) = Text t # decompose_unwanted ns"
| "decompose_unwanted (Other t # ns) = Other t # decompose_unwanted ns"
| "decompose_unwanted (Elem n h c ch # ns) =
     (if n \<in> set unwanted_tags then decompose_unwanted ns
      else Elem n h c (decompose_unwanted ch) # decompose_unwanted ns)"

text \<open>The text strings below a list of nodes, in document order.\<close>

fun all_strings :: "node list \<Rightarrow> pystr list" where
  "all_strings [] = []"
| "all_strings (Text t # ns) = t # all_strings ns"
| "all_strings (Other t # ns) = all_strings ns"
| "all_strings (Elem n h c ch # ns) = all_strings ch @ all_strings ns"

text \<open>
  \<open>get_text(separator=' ', strip=True)\<close>: every text string is stripped, the empty
  ones are dropped, the rest are joined by one space.
\<close>

definition text_pieces :: "ucd \<Rightarrow> node list \<Rightarrow> pystr list" where
  "text_pieces U ns = filter (\<lambda>t. t \<noteq> []) (map (strip U) (all_strings ns))"

definition get_text :: "ucd \<Rightarrow> node list \<Rightarrow> pystr" where
  "get_text U ns = join (lit '' '') (text_pieces U ns)"

text \<open>
  \<open>a or b or c\<close> on the three searches (a tag object is always true). The result
  is the extracted text together with the soup as the call leaves it.
\<close>

definition extract_main_content :: "ucd \<Rightarrow> node list \<Rightarrow> pystr \<times> node list" where
  "extract_main_content U soup =
     (let soup' = decompose_unwanted soup;
          main_content =
            (case soup_find (named (lit ''main'')) soup' of
               Some m \<Rightarrow> Some m
             | None \<Rightarrow>
                (case soup_find (named (lit ''article'')) soup' of
                   Some a \<Rightarrow> Some a
                 | None \<Rightarrow> soup_find (div_with_class U) soup'))
      in (case main_content of
            Some m \<Rightarrow> (get_text U (children m), soup')
          | None \<Rightarrow> (get_text U soup', soup')))"

text \<open>
  \<open>tag.string\<close>: the only child if it is a string, the \<open>string\<close> of the only child
  if it is a tag, \<open>None\<close> otherwise.
\<close>

fun tag_string :: "node \<Rightarrow> pyval" where
  "tag_string (Text t) = PyStr t"
| "tag_string (Other t) = PyStr t"
| "tag_string (Elem n h c [child]) = tag_string child"
| "tag_string (Elem n h c ch) = PyNone"

text \<open>
  \<open>[a.get('href') for a in soup.find_all('a', href=True)]\<close>: the \<open>href\<close> of every
  \<open>a\<close> tag that has the attribute, in document order. \<open>own_href\<close> is what one
  tag contributes by itself.
\<close>

definition own_href :: "pystr \<Rightarrow> pystr option \<Rightarrow> pystr list" where
  "own_href n h = (if n = lit ''a'' then (case h of Some v \<Rightarrow> [v] | None \<Rightarrow> []) else [])"

fun anchor_hrefs :: "node list \<Rightarrow> pystr list" where
  "anchor_hrefs [] = []"
| "anchor_hrefs (Text t # ns) = anchor_hrefs ns"
| "anchor_hrefs (Other t # ns) = anchor_hrefs ns"
| "anchor_hrefs (Elem n h c ch # ns) = own_href n h @ anchor_hrefs ch @ anchor_hrefs ns"

section \<open>The outside world\<close>

text \<open>
  The HTTP client with the parser, \<open>urllib.parse.urljoin\<close> and the model API are
  library and service boundaries, taken as parameters. Each returns \<open>Inl\<close> of the
  exception's message when it raises. \<open>requests_get log url\<close> stands for
  \<open>requests.get\<close>, \<open>raise_for_status\<close> and the parse; \<open>log\<close> is the list of
  URLs requested earlier in the same request, so the answer for a URL may change from
  one call to the next. \<open>generate_content\<close> returns the response's text, empty
  when there is none.
\<close>

record services =
  requests_get :: "pystr list \<Rightarrow> pystr \<Rightarrow> pystr + node list"
  urljoin :: "pystr \<Rightarrow> pystr \<Rightarrow> pystr + pystr"
  generate_content :: "pystr \<Rightarrow> pystr + pystr"

record page_record =
  title :: pyval
  content :: pystr
  links :: "pystr list"

text \<open>The list comprehension over \<open>urljoin\<close>: the first exception ends it.\<close>

fun join_all :: "(pystr \<Rightarrow> pystr + pystr) \<Rightarrow> pystr list \<Rightarrow> pystr + pystr list" where
  "join_all f [] = Inr []"
| "join_all f (h # hs) =
     (case f h of
        Inl e \<Rightarrow> Inl e
      | Inr l \<Rightarrow> (case join_all f hs of Inl e \<Rightarrow> Inl e | Inr ls \<Rightarrow> Inr (l # ls)))"

definition scrape_error :: "pystr \<Rightarrow> pystr \<Rightarrow> pystr" where
  "scrape_error url e = lit ''Error scraping '' @ url @ lit '': '' @ e"

text \<open>
  \<open>scrape_url\<close>: \<open>Inl\<close> is the dictionary \<open>{'error': ...}\<close>, \<open>Inr\<close> the
  dictionary with title, content and links.
\<close>

definition scrape_url :: "services \<Rightarrow> ucd \<Rightarrow> pystr list \<Rightarrow> pystr \<Rightarrow> pystr + page_record" where
  "scrape_url S U log url =
     (case requests_get S log url of
        Inl e \<Rightarrow> Inl (scrape_error url e)
      | Inr soup \<Rightarrow>
         (let ttl = (case soup_find (named (lit ''title'')) soup of
                       Some t \<Rightarrow> tag_string t
                     | None \<Rightarrow> PyStr []);
              (text, soup') = extract_main_content U soup;
              cleaned_content = clean_text U text
          in (case join_all (urljoin S url) (anchor_hrefs soup') of
                Inl e \<Rightarrow> Inl (scrape_error url e)
              | Inr ls \<Rightarrow> Inr \<lparr>title = ttl, content = cleaned_content, links = take 5 ls\<rparr>)))"

section \<open>The batch endpoint\<close>

datatype body =
    ErrorBody pystr
  | ContentBody "(pystr \<times> page_record) list"
  | AnswerBody pystr

datatype response = Response nat body

text \<open>
  The loop of \<open>fetch_content\<close>. The dictionary \<open>content\<close> is an association list
  in insertion order; \<open>log\<close> collects the URLs handed to \<open>scrape_url\<close>.
\<close>

fun fetch_loop ::
  "services \<Rightarrow> ucd \<Rightarrow> pystr list \<Rightarrow> (pystr \<times> page_record) list \<Rightarrow> pystr list
     \<Rightarrow> response \<times> pystr list" where
  "fetch_loop S U [] cont log = (Response 200 (ContentBody cont), log)"
| "fetch_loop S U (url # urls) cont log =
     (if strip U url \<noteq> [] then
        (case scrape_url S U log url of
           Inl err \<Rightarrow> (Response 400 (ErrorBody err), log @ [url])
         | Inr result \<Rightarrow> fetch_loop S U urls (AList.update url result cont) (log @ [url]))
      else fetch_loop S U urls cont log)"

text \<open>
  \<open>fetch_content\<close> on the request's \<open>urls\<close> field, a list of strings (\<open>None\<close>
  when the key is absent, where \<open>get\<close> supplies the empty list). With strings for
  URLs nothing escapes \<open>scrape_url\<close>, which catches every exception, so the
  handler's own \<open>except\<close> branch is not reached.
\<close>

definition fetch_content :: "services \<Rightarrow> ucd \<Rightarrow> pystr list option \<Rightarrow> response \<times> pystr list" where
  "fetch_content S U urls_field =
     (let urls = (case urls_field of None \<Rightarrow> [] | Some us \<Rightarrow> us)
      in if urls = [] then (Response 400 (ErrorBody (lit ''No URLs provided'')), [])
         else fetch_loop S U urls [] [])"

section \<open>Prompt assembly\<close>

text \<open>
  The request body is the value the JSON parser built: \<open>None\<close>, a bool, a number
  (an int, or a float kept as its text: its value plays no role here), a string, a
  list or a dictionary, the latter as the association list of its items in order (keys
  distinct).
\<close>

datatype json =
    JNull
  | JBool bool
  | JInt int
  | JFloat pystr
  | JStr pystr
  | JArr "json list"
  | JObj "(pystr \<times> json) list"

text \<open>
  What the interpreter prints belongs to it, not to the repository: \<open>py_repr\<close> is
  \<open>str()\<close> of a bool, a number, a list or a dictionary, and \<open>slice_dict_error\<close>
  the message of the exception that slicing a dictionary raises.
\<close>

record interp =
  py_repr :: "json \<Rightarrow> pystr"
  slice_dict_error :: pystr

definition type_name :: "json \<Rightarrow> pystr" where
  "type_name v =
     (case v of
        JNull \<Rightarrow> lit ''NoneType'' | JBool b \<Rightarrow> lit ''bool'' | JInt i \<Rightarrow> lit ''int''
      | JFloat f \<Rightarrow> lit ''float'' | JStr s \<Rightarrow> lit ''str'' | JArr xs \<Rightarrow> lit ''list''
      | JObj kvs \<Rightarrow> lit ''dict'')"

text \<open>The messages of the exceptions the handler can meet; code point 39 is the apostrophe.\<close>

definition quoted :: "pystr \<Rightarrow> pystr" where
  "quoted s = [39] @ s @ [39]"

definition attribute_error :: "json \<Rightarrow> pystr \<Rightarrow> pystr" where
  "attribute_error v attr = quoted (type_name v) @ lit '' object has no attribute '' @ quoted attr"

definition len_error :: "json \<Rightarrow> pystr" where
  "len_error v = lit ''object of type '' @ quoted (type_name v) @ lit '' has no len()''"

definition subscript_error :: "json \<Rightarrow> pystr" where
  "subscript_error v = quoted (type_name v) @ lit '' object is not subscriptable''"

text \<open>\<open>d.get(key, default)\<close> and \<open>len(v)\<close> (\<open>None\<close> where \<open>len\<close> raises).\<close>

definition dict_get :: "(pystr \<times> json) list \<Rightarrow> pystr \<Rightarrow> json \<Rightarrow> json" where
  "dict_get d k dflt = (case map_of d k of None \<Rightarrow> dflt | Some v \<Rightarrow> v)"

definition py_len :: "json \<Rightarrow> nat option" where
  "py_len v =
     (case v of
        JStr s \<Rightarrow> Some (length s) | JArr xs \<Rightarrow> Some (length xs) | JObj kvs \<Rightarrow> Some (length kvs)
      | _ \<Rightarrow> None)"

text \<open>\<open>{data['title']}\<close> in the f-string: \<open>str()\<close> of the value.\<close>

definition py_str :: "interp \<Rightarrow> json \<Rightarrow> pystr" where
  "py_str I v = (case v of JStr s \<Rightarrow> s | JNull \<Rightarrow> lit ''None'' | _ \<Rightarrow> py_repr I v)"

text \<open>
  \<open>{data['content'][:1500]}\<close>: a string is cut to its first 1500 characters, a
  list to its first 1500 members (and then printed); slicing anything else raises.
\<close>

definition content_slice :: "interp \<Rightarrow> json \<Rightarrow> pystr + pystr" where
  "content_slice I c =
     (case c of
        JStr s \<Rightarrow> Inr (take 1500 s)
      | JArr xs \<Rightarrow> Inr (py_repr I (JArr (take 1500 xs)))
      | JObj kvs \<Rightarrow> Inl (slice_dict_error I)
      | _ \<Rightarrow> Inl (subscript_error c))"

definition stray_comment :: pystr where
  "stray_comment = lit ''  # Limit content length per URL''"

text \<open>The f-string of one block, around the printed title and the sliced content.\<close>

definition context_block :: "interp \<Rightarrow> pystr \<Rightarrow> json \<Rightarrow> pystr \<Rightarrow> pystr" where
  "context_block I url ttl sliced =
     lit ''\<newline>Source: '' @ url
     @ lit ''\<newline>Title: '' @ py_str I ttl
     @ lit ''\<newline>Content:\<newline>'' @ sliced @ stray_comment
     @ lit ''\<newline>                ''"

text \<open>
  \<open>isinstance(data, dict) and 'title' in data and 'content' in data\<close>: the two
  values when the test holds.
\<close>

definition entry_fields :: "json \<Rightarrow> (json \<times> json) option" where
  "entry_fields d =
     (case d of
        JObj r \<Rightarrow>
         (case map_of r (lit ''title'') of
            None \<Rightarrow> None
          | Some ttl \<Rightarrow>
             (case map_of r (lit ''content'') of None \<Rightarrow> None | Some c \<Rightarrow> Some (ttl, c)))
      | _ \<Rightarrow> None)"

text \<open>The loop over \<open>content.items()\<close>; an exception in a block ends it.\<close>

fun context_parts :: "interp \<Rightarrow> (pystr \<times> json) list \<Rightarrow> pystr list \<Rightarrow> pystr + pystr list" where
  "context_parts I [] parts = Inr parts"
| "context_parts I ((url, d) # rest) parts =
     (case entry_fields d of
        None \<Rightarrow> context_parts I rest parts
      | Some (ttl, c) \<Rightarrow>
         (case content_slice I c of
            Inl e \<Rightarrow> Inl e
          | Inr sliced \<Rightarrow> context_parts I rest (parts @ [context_block I url ttl sliced])))"

definition separator :: pystr where
  "separator = lit ''\<newline>\<newline>---\<newline>\<newline>''"

definition prompt_head :: pystr where
  "prompt_head =
     lit ''You are a knowledgeable and thorough research assistant. Analyze the provided content and answer the question comprehensively.\<newline>''
     @ lit ''\<newline>''
     @ lit ''Question: ''"

definition prompt_middle :: pystr where
  "prompt_middle =
     lit ''\<newline>''
     @ lit ''\<newline>''
     @ lit ''Reference Content:\<newline>''"

definition prompt_tail :: pystr where
  "prompt_tail =
     lit ''\<newline>''
     @ lit ''\<newline>''
     @ lit ''Please provide a detailed response following this structure:\<newline>''
     @ lit ''\<newline>''
     @ lit ''1. Direct Answer:\<newline>''
     @ lit ''   - Begin with a clear, direct answer to the question\<newline>''
     @ lit ''   - Highlight key points and main findings\<newline>''
     @ lit ''\<newline>''
     @ lit ''2. Supporting Evidence:\<newline>''
     @ lit ''   - Quote relevant passages from the source material using quotation marks\<newline>''
     @ lit ''   - Cite the specific source URL for each quote\<newline>''
     @ lit ''   - Explain how each piece of evidence supports the answer\<newline>''
     @ lit ''\<newline>''
     @ lit ''3. Analysis & Context:\<newline>''
     @ lit ''   - Provide additional context or background information\<newline>''
     @ lit ''   - Explain any important relationships or implications\<newline>''
     @ lit ''   - Address any potential limitations or caveats\<newline>''
     @ lit ''\<newline>''
     @ lit ''4. Summary:\<newline>''
     @ lit ''   - Conclude with a brief summary of the key points\<newline>''
     @ lit ''   - Highlight any remaining uncertainties or areas needing clarification\<newline>''
     @ lit ''\<newline>''
     @ lit ''If the provided content doesn't contain sufficient information to answer the question:\<newline>''
     @ lit ''- Clearly state what information is missing\<newline>''
     @ lit ''- Explain what additional information would be needed\<newline>''
     @ lit ''- Note any partial insights that can be drawn from the available content\<newline>''
     @ lit ''\<newline>''
     @ lit ''Format your response using clear headings and bullet points for readability.''"

definition build_prompt :: "pystr \<Rightarrow> pystr \<Rightarrow> pystr" where
  "build_prompt question context = prompt_head @ question @ prompt_middle @ context @ prompt_tail"

section \<open>Answer post-processing\<close>

text \<open>
  \<open>re.sub\<close> scans from the left; where the pattern matches, the replacement is
  written and the scan goes on behind the match, elsewhere one character is copied.
  A matcher gets the flag "at the start of a line" (start of the string or behind a
  line feed, what \<open>^\<close> means under \<open>re.MULTILINE\<close>) and the rest of the string,
  and returns the replacement and the number of characters matched. None of the
  patterns below matches the empty string.
\<close>

function re_sub :: "(bool \<Rightarrow> pystr \<Rightarrow> (pystr \<times> nat) option) \<Rightarrow> bool \<Rightarrow> pystr \<Rightarrow> pystr" where
  "re_sub m bol [] = []"
| "re_sub m bol (c # cs) =
     (case m bol (c # cs) of
        Some (rep, Suc k) \<Rightarrow> rep @ re_sub m ((c # cs) ! k = 10) (drop k cs)
      | _ \<Rightarrow> c # re_sub m (c = 10) cs)"
  by pat_completeness auto
termination
  by (relation "measure (\<lambda>(m, bol, s). length s)") auto

text \<open>
  \<open>^(\d+)\.\s+([^\n]+)\<close> with the replacement \<open><h3>\1. \2</h3>\<close>. Both
  \<open>\d+\<close> and \<open>\s+\<close> are greedy; when the whitespace runs to the end of the
  string, \<open>\s+\<close> gives characters back until one that is not a line feed is left for
  the second group.
\<close>

definition heading :: "pystr \<Rightarrow> pystr \<Rightarrow> pystr" where
  "heading num txt = lit ''<h3>'' @ num @ lit ''. '' @ txt @ lit ''</h3>''"

definition heading_match :: "ucd \<Rightarrow> bool \<Rightarrow> pystr \<Rightarrow> (pystr \<times> nat) option" where
  "heading_match U bol s =
     (let ds = takeWhile (is_digit U) s; r1 = dropWhile (is_digit U) s
      in if \<not> bol \<or> ds = [] then None
         else (case r1 of
                 [] \<Rightarrow> None
               | d # r2 \<Rightarrow>
                  (let ws = takeWhile (is_space U) r2; r3 = dropWhile (is_space U) r2
                   in if d \<noteq> 46 \<or> ws = [] then None
                      else if r3 \<noteq> [] then
                        (let g2 = takeWhile (\<lambda>c. c \<noteq> 10) r3
                         in Some (heading ds g2, length ds + 1 + length ws + length g2))
                      else
                        (let cand = rev (dropWhile (\<lambda>c. c = 10) (rev (tl ws)))
                         in if cand = [] then None
                            else Some (heading ds [last cand], length ds + 1 + (1 + length cand))))))"

text \<open>\<open>answer.replace("\n\n", "<br><br>")\<close>.\<close>

fun replace_breaks :: "pystr \<Rightarrow> pystr" where
  "replace_breaks [] = []"
| "replace_breaks [c] = [c]"
| "replace_breaks (c # d # cs) =
     (if c = 10 \<and> d = 10 then lit ''<br><br>'' @ replace_breaks cs
      else c # replace_breaks (d # cs))"

text \<open>\<open>"([^"]*)"\<close> with the replacement \<open><b>"\1"</b>\<close>; code point 34 is the quote.\<close>

definition quote_match :: "bool \<Rightarrow> pystr \<Rightarrow> (pystr \<times> nat) option" where
  "quote_match bol s =
     (case s of
        [] \<Rightarrow> None
      | c # r \<Rightarrow>
         (let inner = takeWhile (\<lambda>x. x \<noteq> 34) r
          in if c = 34 \<and> dropWhile (\<lambda>x. x \<noteq> 34) r \<noteq> []
             then Some (lit ''<b>'' @ [34] @ inner @ [34] @ lit ''</b>'', length inner + 2)
             else None))"

text \<open>
  \<open>^-\s+\<close>. The replacement literal of the source is the four code points
  U+00E2, U+20AC, U+00A2 and a space.
\<close>

definition bullet_replacement :: pystr where
  "bullet_replacement = [226, 8364, 162, 32]"

definition bullet_match :: "ucd \<Rightarrow> bool \<Rightarrow> pystr \<Rightarrow> (pystr \<times> nat) option" where
  "bullet_match U bol s =
     (case s of
        [] \<Rightarrow> None
      | c # r \<Rightarrow>
         (let ws = takeWhile (is_space U) r
          in if bol \<and> c = 45 \<and> ws \<noteq> [] then Some (bullet_replacement, 1 + length ws)
             else None))"

definition post_process :: "ucd \<Rightarrow> pystr \<Rightarrow> pystr" where
  "post_process U answer =
     (let a1 = re_sub (heading_match U) True answer;
          a2 = replace_breaks a1;
          a3 = re_sub quote_match True a2;
          a4 = re_sub (bullet_match U) True a3
      in a4)"

section \<open>The question endpoint\<close>

text \<open>
  \<open>ask_question\<close> on the parsed request body. Every exception is caught by the
  handler and answered with HTTP 500 and its message. The second component lists the
  prompts passed to \<open>model.generate_content\<close>.
\<close>

definition ask_question :: "services \<Rightarrow> ucd \<Rightarrow> interp \<Rightarrow> json \<Rightarrow> response \<times> pystr list" where
  "ask_question S U I data =
     (case data of
        JObj flds \<Rightarrow>
         (let cont = dict_get flds (lit ''content'') (JObj [])
          in (case dict_get flds (lit ''question'') (JStr []) of
                JStr q \<Rightarrow>
                 (let question = strip U q
                  in (case py_len cont of
                        None \<Rightarrow> (Response 500 (ErrorBody (len_error cont)), [])
                      | Some n \<Rightarrow>
                         if n = 0 then (Response 400 (ErrorBody (lit ''No content provided'')), [])
                         else if question = [] then
                           (Response 400 (ErrorBody (lit ''No question provided'')), [])
                         else
                           (case cont of
                              JObj items \<Rightarrow>
                               (case context_parts I items [] of
                                  Inl e \<Rightarrow> (Response 500 (ErrorBody e), [])
                                | Inr context_parts' \<Rightarrow>
                                   (let context = join separator context_parts';
                                        prompt = build_prompt question context
                                    in (case generate_content S prompt of
                                          Inl e \<Rightarrow> (Response 500 (ErrorBody e), [prompt])
                                        | Inr text \<Rightarrow>
                                           (if text \<noteq> [] then
                                              (Response 200 (AnswerBody (post_process U (strip U text))),
                                               [prompt])
                                            else (Response 500 (ErrorBody (lit ''No response generated'')),
                                                  [prompt])))))
                            | _ \<Rightarrow> (Response 500 (ErrorBody (attribute_error cont (lit ''items''))), []))))
              | qv \<Rightarrow> (Response 500 (ErrorBody (attribute_error qv (lit ''strip''))), [])))
      | _ \<Rightarrow> (Response 500 (ErrorBody (attribute_error data (lit ''get''))), []))"

section \<open>URL resolution\<close>

text \<open>
  \<open>urljoin\<close> belongs to the interpreter's library (\<open>urllib.parse\<close>), not to the
  repository; this is the function as CPython 3.11 ships it, for \<open>str\<close> arguments.
  Two checks of a network location rest on further library tables and are parameters:
  \<open>bracketed_host_error\<close> gives the message of the exception that the check of a
  bracketed host raises (\<open>None\<close> when it passes), and \<open>nfkc_invalid\<close> says that a
  non-ASCII location is refused under NFKC normalisation.
\<close>

record urllib =
  bracketed_host_error :: "pystr \<Rightarrow> pystr option"
  nfkc_invalid :: "pystr \<Rightarrow> bool"

definition uses_relative :: "pystr list" where
  "uses_relative = [[], lit ''ftp'', lit ''http'', lit ''gopher'', lit ''nntp'', lit ''imap'',
     lit ''wais'', lit ''file'', lit ''https'', lit ''shttp'', lit ''mms'', lit ''prospero'',
     lit ''rtsp'', lit ''rtsps'', lit ''rtspu'', lit ''sftp'', lit ''svn'', lit ''svn+ssh'',
     lit ''ws'', lit ''wss'']"

definition uses_netloc :: "pystr list" where
  "uses_netloc = [[], lit ''ftp'', lit ''http'', lit ''gopher'', lit ''nntp'', lit ''telnet'',
     lit ''imap'', lit ''wais'', lit ''file'', lit ''mms'', lit ''https'', lit ''shttp'',
     lit ''snews'', lit ''prospero'', lit ''rtsp'', lit ''rtsps'', lit ''rtspu'', lit ''rsync'',
     lit ''svn'', lit ''svn+ssh'', lit ''sftp'', lit ''nfs'', lit ''git'', lit ''git+ssh'',
     lit ''ws'', lit ''wss'']"

definition uses_params :: "pystr list" where
  "uses_params = [[], lit ''ftp'', lit ''hdl'', lit ''prospero'', lit ''http'', lit ''imap'',
     lit ''https'', lit ''shttp'', lit ''rtsp'', lit ''rtsps'', lit ''rtspu'', lit ''sip'',
     lit ''sips'', lit ''mms'', lit ''sftp'', lit ''tel'']"

definition scheme_char :: "nat \<Rightarrow> bool" where
  "scheme_char c = ((97 \<le> c \<and> c \<le> 122) \<or> (65 \<le> c \<and> c \<le> 90) \<or> (48 \<le> c \<and> c \<le> 57)
                    \<or> c \<in> set (lit ''+-.''))"

definition ascii_alpha :: "nat \<Rightarrow> bool" where
  "ascii_alpha c = ((65 \<le> c \<and> c \<le> 90) \<or> (97 \<le> c \<and> c \<le> 122))"

definition ascii_lower :: "nat \<Rightarrow> nat" where
  "ascii_lower c = (if 65 \<le> c \<and> c \<le> 90 then c + 32 else c)"

text \<open>
  The first lines of \<open>urlsplit\<close>: leading C0 control characters and spaces go
  (from both ends of the default scheme), then every tab, carriage return and line feed.
\<close>

definition remove_unsafe :: "pystr \<Rightarrow> pystr" where
  "remove_unsafe s = filter (\<lambda>c. c \<noteq> 9 \<and> c \<noteq> 13 \<and> c \<noteq> 10) s"

definition prepare_url :: "pystr \<Rightarrow> pystr" where
  "prepare_url url = remove_unsafe (dropWhile (\<lambda>c. c \<le> 32) url)"

definition prepare_scheme :: "pystr \<Rightarrow> pystr" where
  "prepare_scheme scheme =
     remove_unsafe (rev (dropWhile (\<lambda>c. c \<le> 32) (rev (dropWhile (\<lambda>c. c \<le> 32) scheme))))"

text \<open>\<open>s.split(sep, 1)\<close> at the first \<open>sep\<close>, which must be in \<open>s\<close>: the two parts.\<close>

definition split_first :: "nat \<Rightarrow> pystr \<Rightarrow> pystr \<times> pystr" where
  "split_first sep s = (takeWhile (\<lambda>c. c \<noteq> sep) s, drop 1 (dropWhile (\<lambda>c. c \<noteq> sep) s))"

text \<open>
  The scheme: the text before the first colon (code point 58) when that text is not
  empty, starts with an ASCII letter and has scheme characters only; it is lowered.
\<close>

definition split_scheme :: "pystr \<Rightarrow> pystr \<Rightarrow> pystr \<times> pystr" where
  "split_scheme url scheme =
     (let pre = takeWhile (\<lambda>c. c \<noteq> 58) url
      in if 58 \<in> set url \<and> pre \<noteq> [] \<and> ascii_alpha (hd url) \<and> list_all scheme_char pre
         then (map ascii_lower pre, drop 1 (dropWhile (\<lambda>c. c \<noteq> 58) url))
         else (scheme, url))"

text \<open>\<open>_splitnetloc(url, 2)\<close>: the location ends at the first of \<open>/ ? #\<close>.\<close>

definition netloc_delim :: "nat \<Rightarrow> bool" where
  "netloc_delim c = (c \<in> set (lit ''/?#''))"

definition splitnetloc :: "pystr \<Rightarrow> pystr \<times> pystr" where
  "splitnetloc url =
     (takeWhile (\<lambda>c. \<not> netloc_delim c) (drop 2 url), dropWhile (\<lambda>c. \<not> netloc_delim c) (drop 2 url))"

text \<open>
  The checks of the location in \<open>urlsplit\<close>, in the order they are made: the
  brackets (91 and 93) before the query and fragment are split off, \<open>_checknetloc\<close>
  after. \<open>None\<close> when no exception is raised.
\<close>

definition bracket_check :: "urllib \<Rightarrow> pystr \<Rightarrow> pystr option" where
  "bracket_check L netloc =
     (if (91 \<in> set netloc \<and> 93 \<notin> set netloc) \<or> (93 \<in> set netloc \<and> 91 \<notin> set netloc)
      then Some (lit ''Invalid IPv6 URL'')
      else if 91 \<in> set netloc \<and> 93 \<in> set netloc
      then bracketed_host_error L
             (takeWhile (\<lambda>c. c \<noteq> 93) (drop 1 (dropWhile (\<lambda>c. c \<noteq> 91) netloc)))
      else None)"

definition checknetloc :: "urllib \<Rightarrow> pystr \<Rightarrow> pystr option" where
  "checknetloc L netloc =
     (if netloc = [] \<or> list_all (\<lambda>c. c < 128) netloc then None
      else if nfkc_invalid L netloc
      then Some (lit ''netloc '' @ [39] @ netloc @ [39]
                 @ lit '' contains invalid characters under NFKC normalization'')
      else None)"

text \<open>
  \<open>urlsplit(url, scheme)\<close>: scheme, location, path, query and fragment, or the
  message of the \<open>ValueError\<close>. Code points 35 and 63 are \<open>#\<close> and \<open>?\<close>.
\<close>

definition urlsplit ::
  "urllib \<Rightarrow> pystr \<Rightarrow> pystr \<Rightarrow> pystr + (pystr \<times> pystr \<times> pystr \<times> pystr \<times> pystr)" where
  "urlsplit L url0 scheme0 =
     (let (scheme, url1) = split_scheme (prepare_url url0) (prepare_scheme scheme0);
          (netloc, url2) = (if take 2 url1 = lit ''//'' then splitnetloc url1 else ([], url1))
      in (case (if take 2 url1 = lit ''//'' then bracket_check L netloc else None) of
            Some e \<Rightarrow> Inl e
          | None \<Rightarrow>
             (let (url3, fragment) = (if 35 \<in> set url2 then split_first 35 url2 else (url2, []));
                  (url4, query) = (if 63 \<in> set url3 then split_first 63 url3 else (url3, []))
              in (case checknetloc L netloc of
                    Some e \<Rightarrow> Inl e
                  | None \<Rightarrow> Inr (scheme, netloc, url4, query, fragment)))))"

text \<open>
  \<open>_splitparams\<close>: the parameters start at the first semicolon (code point 59)
  behind the last slash (47).
\<close>

definition splitparams :: "pystr \<Rightarrow> pystr \<times> pystr" where
  "splitparams url =
     (if 47 \<in> set url then
        (let last_seg = rev (takeWhile (\<lambda>c. c \<noteq> 47) (rev url));
             front = take (length url - length last_seg) url
         in if 59 \<in> set last_seg
            then (front @ takeWhile (\<lambda>c. c \<noteq> 59) last_seg, drop 1 (dropWhile (\<lambda>c. c \<noteq> 59) last_seg))
            else (url, []))
      else split_first 59 url)"

definition urlparse ::
  "urllib \<Rightarrow> pystr \<Rightarrow> pystr \<Rightarrow> pystr + (pystr \<times> pystr \<times> pystr \<times> pystr \<times> pystr \<times> pystr)" where
  "urlparse L url0 scheme0 =
     (case urlsplit L url0 scheme0 of
        Inl e \<Rightarrow> Inl e
      | Inr (scheme, netloc, url, query, fragment) \<Rightarrow>
         (let (url', params) = (if scheme \<in> set uses_params \<and> 59 \<in> set url then splitparams url
                                else (url, []))
          in Inr (scheme, netloc, url', params, query, fragment)))"

definition urlunsplit :: "pystr \<times> pystr \<times> pystr \<times> pystr \<times> pystr \<Rightarrow> pystr" where
  "urlunsplit parts =
     (case parts of (scheme, netloc, url0, query, fragment) \<Rightarrow>
        (let url1 = (if netloc \<noteq> [] \<or> (scheme \<noteq> [] \<and> scheme \<in> set uses_netloc) \<or> take 2 url0 = lit ''//''
                     then lit ''//'' @ netloc @ (if url0 \<noteq> [] \<and> take 1 url0 \<noteq> lit ''/'' then lit ''/'' @ url0
                                                else url0)
                     else url0);
             url2 = (if scheme \<noteq> [] then scheme @ lit '':'' @ url1 else url1);
             url3 = (if query \<noteq> [] then url2 @ lit ''?'' @ query else url2)
         in if fragment \<noteq> [] then url3 @ lit ''#'' @ fragment else url3))"

definition urlunparse :: "pystr \<times> pystr \<times> pystr \<times> pystr \<times> pystr \<times> pystr \<Rightarrow> pystr" where
  "urlunparse parts =
     (case parts of (scheme, netloc, url, params, query, fragment) \<Rightarrow>
        urlunsplit (scheme, netloc, (if params \<noteq> [] then url @ lit '';'' @ params else url),
                    query, fragment))"

text \<open>\<open>s.split('/')\<close>.\<close>

fun split_on :: "nat \<Rightarrow> pystr \<Rightarrow> pystr list" where
  "split_on sep [] = [[]]"
| "split_on sep (c # cs) =
     (if c = sep then [] # split_on sep cs
      else (case split_on sep cs of x # xs \<Rightarrow> (c # x) # xs | [] \<Rightarrow> [[c]]))"

text \<open>\<open>segments[1:-1] = filter(None, segments[1:-1])\<close>: empty segments go, save at the ends.\<close>

definition squeeze_segments :: "pystr list \<Rightarrow> pystr list" where
  "squeeze_segments segments =
     (case segments of
        [] \<Rightarrow> []
      | [x] \<Rightarrow> [x]
      | x # rest \<Rightarrow> x # filter (\<lambda>s. s \<noteq> []) (butlast rest) @ [last rest])"

text \<open>The loop over the segments: \<open>..\<close> pops (when there is something to pop), \<open>.\<close> is skipped.\<close>

fun resolve_segments :: "pystr list \<Rightarrow> pystr list \<Rightarrow> pystr list" where
  "resolve_segments [] resolved_path = resolved_path"
| "resolve_segments (seg # segs) resolved_path =
     (if seg = lit ''..'' then resolve_segments segs (butlast resolved_path)
      else if seg = lit ''.'' then resolve_segments segs resolved_path
      else resolve_segments segs (resolved_path @ [seg]))"

text \<open>\<open>urljoin\<close> behind the two calls of \<open>urlparse\<close>.\<close>

definition join_parsed ::
  "pystr \<times> pystr \<times> pystr \<times> pystr \<times> pystr \<times> pystr
     \<Rightarrow> pystr \<times> pystr \<times> pystr \<times> pystr \<times> pystr \<times> pystr \<Rightarrow> pystr \<Rightarrow> pystr" where
  "join_parsed bparts parts url =
     (case bparts of (bscheme, bnetloc, bpath, bparams, bquery, bfragment) \<Rightarrow>
      case parts of (scheme, netloc0, path, params, query, fragment) \<Rightarrow>
        if scheme \<noteq> bscheme \<or> scheme \<notin> set uses_relative then url
        else if scheme \<in> set uses_netloc \<and> netloc0 \<noteq> []
        then urlunparse (scheme, netloc0, path, params, query, fragment)
        else
          (let netloc = (if scheme \<in> set uses_netloc then bnetloc else netloc0)
           in if path = [] \<and> params = []
              then urlunparse (scheme, netloc, bpath, bparams,
                               (if query = [] then bquery else query), fragment)
              else
                (let base_parts0 = split_on 47 bpath;
                     base_parts = (if last base_parts0 \<noteq> [] then butlast base_parts0 else base_parts0);
                     segments = (if take 1 path = lit ''/'' then split_on 47 path
                                 else squeeze_segments (base_parts @ split_on 47 path));
                     resolved0 = resolve_segments segments [];
                     resolved_path = (if last segments = lit ''.'' \<or> last segments = lit ''..''
                                      then resolved0 @ [[]] else resolved0);
                     joined = join (lit ''/'') resolved_path
                 in urlunparse (scheme, netloc, (if joined = [] then lit ''/'' else joined),
                                params, query, fragment))))"

definition urllib_urljoin :: "urllib \<Rightarrow> pystr \<Rightarrow> pystr \<Rightarrow> pystr + pystr" where
  "urllib_urljoin L base url =
     (if base = [] then Inr url
      else if url = [] then Inr base
      else (case urlparse L base [] of
              Inl e \<Rightarrow> Inl e
            | Inr bparts \<Rightarrow>
               (case urlparse L url (fst bparts) of
                  Inl e \<Rightarrow> Inl e
                | Inr parts \<Rightarrow> Inr (join_parsed bparts parts url))))"



section \<open>Auxiliary notions for the properties\<close>

text \<open>
  A string is single-spaced when its only whitespace is the space character and no two
  spaces are adjacent: the shape \<open>sub_ws\<close> produces.
\<close>

fun single_spaced :: "ucd \<Rightarrow> pystr \<Rightarrow> bool" where
  "single_spaced U [] = True"
| "single_spaced U (c # cs) =
     ((is_space U c \<longrightarrow> c = 32 \<and> (cs = [] \<or> \<not> is_space U (hd cs))) \<and> single_spaced U cs)"

text \<open>A string has a double space when two space characters stand side by side.\<close>

fun double_space :: "pystr \<Rightarrow> bool" where
  "double_space [] = False"
| "double_space [c] = False"
| "double_space (c # d # cs) = ((c = 32 \<and> d = 32) \<or> double_space (d # cs))"

text \<open>All tags below a list of nodes, in document order (a tag before its descendants).\<close>

fun elements :: "node list \<Rightarrow> node list" where
  "elements [] = []"
| "elements (Text t # ns) = elements ns"
| "elements (Other t # ns) = elements ns"
| "elements (Elem n h c ch # ns) = Elem n h c ch # elements ch @ elements ns"

text \<open>
  Every text string of a document with the names of the tags around it (innermost
  first), and likewise the \<open>href\<close> of every \<open>a\<close> tag that has one.
\<close>

fun texts_under :: "pystr list \<Rightarrow> node list \<Rightarrow> (pystr list \<times> pystr) list" where
  "texts_under anc [] = []"
| "texts_under anc (Text t # ns) = (anc, t) # texts_under anc ns"
| "texts_under anc (Other t # ns) = texts_under anc ns"
| "texts_under anc (Elem n h c ch # ns) = texts_under (n # anc) ch @ texts_under anc ns"

fun anchors_under :: "pystr list \<Rightarrow> node list \<Rightarrow> (pystr list \<times> pystr) list" where
  "anchors_under anc [] = []"
| "anchors_under anc (Text t # ns) = anchors_under anc ns"
| "anchors_under anc (Other t # ns) = anchors_under anc ns"
| "anchors_under anc (Elem n h c ch # ns) =
     map (Pair anc) (own_href n h) @ anchors_under (n # anc) ch @ anchors_under anc ns"



text \<open>
  An entry of the content map contributes a block when it is a dictionary with both
  keys; \<open>entry_block\<close> is its block.
\<close>

definition contributes :: "pystr \<times> json \<Rightarrow> bool" where
  "contributes kv = (entry_fields (snd kv) \<noteq> None)"

definition entry_block :: "interp \<Rightarrow> pystr \<times> json \<Rightarrow> pystr" where
  "entry_block I kv =
     (case entry_fields (snd kv) of
        None \<Rightarrow> []
      | Some (ttl, c) \<Rightarrow>
         (case content_slice I c of Inl e \<Rightarrow> [] | Inr sliced \<Rightarrow> context_block I (fst kv) ttl sliced))"

definition nonblank :: "ucd \<Rightarrow> pystr \<Rightarrow> bool" where
  "nonblank U u = (strip U u \<noteq> [])"

section \<open>Concrete inputs\<close>

text \<open>
  A small world for evaluating the functions: two pages that can be fetched, the
  library's \<open>urljoin\<close> (with checks that let every location pass: no bracketed host
  and no non-ASCII location occurs below), a model that answers with a fixed text, and
  an interpreter that prints the two bools (no other value is printed below).
\<close>

definition demo_page :: "node list" where
  "demo_page =
     [Elem (lit ''title'') None None [Text (lit ''Demo'')],
      Elem (lit ''nav'') None None
        [Elem (lit ''a'') (Some (lit ''https://a.com/menu'')) None [Text (lit ''menu'')]],
      Elem (lit ''p'') None None [Text (lit '' intro '')],
      Elem (lit ''section'') None (Some [lit ''Content''])
        [Text (lit ''body''),
         Elem (lit ''a'') (Some []) None [],
         Elem (lit ''a'') (Some (lit ''/about'')) None [Text (lit ''about'')]]]"

definition links_page :: "node list" where
  "links_page =
     [Elem (lit ''a'') (Some []) None [Text (lit ''one'')],
      Elem (lit ''a'') (Some []) None [Text (lit ''two'')],
      Elem (lit ''p'') None None
        [Elem (lit ''a'') (Some []) None [Text (lit ''three'')],
         Elem (lit ''a'') None None [Text (lit ''no reference'')],
         Elem (lit ''a'') (Some []) None [Text (lit ''four'')]],
      Elem (lit ''a'') (Some []) None [Text (lit ''five'')],
      Elem (lit ''a'') (Some (lit ''/about'')) None [Text (lit ''about'')]]"

definition demo_answer :: pystr where
  \<open>demo_answer = lit ''1. Hello\<newline>\<newline>World says "hi" and\<newline>- a bullet''\<close>

definition plain_urllib :: urllib where
  "plain_urllib = \<lparr>bracketed_host_error = (\<lambda>h. None),
                    nfkc_invalid = (\<lambda>n. False)\<rparr>"

definition demo_services :: services where
  "demo_services =
     \<lparr>requests_get = (\<lambda>log url. if url = lit ''https://a.com/x'' then Inr demo_page
                                  else if url = lit ''https://a.com/y'' then Inr links_page
                                  else Inl (lit ''connection failed'')),
      urljoin = urllib_urljoin plain_urllib,
      generate_content = (\<lambda>prompt. Inr demo_answer)\<rparr>"

definition demo_interp :: interp where
  "demo_interp =
     \<lparr>py_repr = (\<lambda>v. case v of JBool True \<Rightarrow> lit ''True'' | JBool False \<Rightarrow> lit ''False''
                                | _ \<Rightarrow> lit ''...''),
      slice_dict_error = lit ''unhashable type: '' @ quoted (lit ''slice'')\<rparr>"

definition main_page :: "node list" where
  "main_page =
     [Elem (lit ''article'') None None [Text (lit ''A'')],
      Elem (lit ''div'') None (Some [lit ''main-content'']) [Text (lit ''D'')],
      Elem (lit ''main'') None None [Text (lit ''M'')]]"

section \<open>The claims that fail, as definitions\<close>

text \<open>
  Main-content selection as the specification words it: the third rule takes the
  first tag of any name whose class matches. (The code searches \<open>div\<close> tags only.)
\<close>

definition claimed_main_content :: "ucd \<Rightarrow> node list \<Rightarrow> pystr" where
  "claimed_main_content U soup =
     (let rest = decompose_unwanted soup; es = elements rest
      in case filter (named (lit ''main'')) es of
           m # ms \<Rightarrow> get_text U (children m)
         | [] \<Rightarrow>
            (case filter (named (lit ''article'')) es of
               a # as \<Rightarrow> get_text U (children a)
             | [] \<Rightarrow>
                (case filter (class_matches U) es of
                   d # ds \<Rightarrow> get_text U (children d)
                 | [] \<Rightarrow> get_text U rest)))"


section \<open>Properties of text cleaning\<close>

lemma sub_ws_hd: "cs \<noteq> [] \<Longrightarrow> \<not> is_space U (hd cs) \<Longrightarrow> sub_ws U cs \<noteq> [] \<and> hd (sub_ws U cs) = hd cs"
  by (cases cs) auto

lemma dropWhile_hd: "dropWhile P xs \<noteq> [] \<Longrightarrow> \<not> P (hd (dropWhile P xs))"
  by (simp add: hd_dropWhile)

lemma sub_ws_nil: "sub_ws U s = [] \<longleftrightarrow> s = []"
  by (cases s) auto

lemma single_spaced_sub_ws: "single_spaced U (sub_ws U s)"
proof (induction U s rule: sub_ws.induct)
  case (1 U)
  show ?case by simp
next
  case (2 U c cs)
  show ?case
  proof (cases "is_space U c")
    case True
    let ?r = "dropWhile (is_space U) cs"
    have "sub_ws U ?r = [] \<or> \<not> is_space U (hd (sub_ws U ?r))"
    proof (cases "?r = []")
      case True then show ?thesis by (simp only: sub_ws.simps simp_thms)
    next
      case False
      then have "\<not> is_space U (hd ?r)" by (rule dropWhile_hd)
      with False show ?thesis using sub_ws_hd [of ?r U] by simp
    qed
    with True 2 show ?thesis by simp
  next
    case False
    with 2 show ?thesis by simp
  qed
qed

lemma sub_ws_fixed: "single_spaced U s \<Longrightarrow> sub_ws U s = s"
proof (induction s)
  case Nil
  show ?case by simp
next
  case (Cons c cs)
  show ?case
  proof (cases "is_space U c")
    case True
    with Cons.prems have c: "c = 32" and h: "cs = [] \<or> \<not> is_space U (hd cs)" and s: "single_spaced U cs"
      by auto
    from h have "dropWhile (is_space U) cs = cs" by (cases cs) auto
    with True c s Cons.IH show ?thesis by simp
  next
    case False
    with Cons show ?thesis by simp
  qed
qed

lemma single_spaced_append: "single_spaced U (xs @ ys) \<Longrightarrow> single_spaced U xs \<and> single_spaced U ys"
  by (induction xs) (auto simp: hd_append split: if_splits)

lemma dropWhile_fixed: "xs \<noteq> [] \<Longrightarrow> \<not> P (hd xs) \<Longrightarrow> dropWhile P xs = xs"
  by (cases xs) simp_all

lemma rev_dropWhile_split:
  "xs = rev (dropWhile P (rev xs)) @ rev (takeWhile P (rev xs))"
proof -
  have "rev (takeWhile P (rev xs) @ dropWhile P (rev xs)) = rev (rev xs)"
    by (simp only: takeWhile_dropWhile_id)
  then show ?thesis by (simp only: rev_append rev_rev_ident)
qed

lemma single_spaced_strip:
  assumes a: "single_spaced U s"
  shows "single_spaced U (strip U s)"
proof -
  let ?t = "dropWhile (is_space U) s"
  have "single_spaced U (takeWhile (is_space U) s @ ?t)"
    using a by (simp only: takeWhile_dropWhile_id)
  then have t: "single_spaced U ?t"
    by (rule single_spaced_append [THEN conjunct2])
  have "single_spaced U (rev (dropWhile (is_space U) (rev ?t)) @ rev (takeWhile (is_space U) (rev ?t)))"
    by (subst rev_dropWhile_split [symmetric]) (rule t)
  then have "single_spaced U (rev (dropWhile (is_space U) (rev ?t)))"
    by (rule single_spaced_append [THEN conjunct1])
  then show ?thesis by (simp only: strip_def)
qed

lemma strip_idem: "strip U (strip U s) = strip U s"
proof -
  let ?P = "is_space U"
  let ?t = "dropWhile ?P s"
  let ?r = "rev (dropWhile ?P (rev ?t))"
  have "dropWhile ?P ?r = ?r"
  proof (cases "?r = []")
    case True then show ?thesis by (simp only: dropWhile.simps)
  next
    case False
    have ne: "?t \<noteq> []"
    proof
      assume "?t = []"
      then have "?r = []" by (simp only: rev.simps dropWhile.simps)
      with False show False by contradiction
    qed
    then have nh: "\<not> ?P (hd ?t)" by (rule dropWhile_hd)
    have "hd ?t = hd (?r @ rev (takeWhile ?P (rev ?t)))"
      by (rule arg_cong [where f = hd, OF rev_dropWhile_split])
    also have "\<dots> = hd ?r"
      using False by (rule hd_append2)
    finally have e: "hd ?t = hd ?r" .
    from nh e have "\<not> ?P (hd ?r)" by (simp only: simp_thms)
    with False show ?thesis by (rule dropWhile_fixed)
  qed
  then show ?thesis by (simp add: strip_def)
qed

lemma set_sub_ws: "set (sub_ws U s) \<subseteq> insert 32 (set s)"
proof (induction U s rule: sub_ws.induct)
  case (1 U) show ?case by simp
next
  case (2 U c cs)
  have "set (dropWhile (is_space U) cs) \<subseteq> set cs" by (auto dest: set_dropWhileD)
  with 2 show ?case by auto
qed

lemma set_strip: "set (strip U s) \<subseteq> set s"
  unfolding strip_def by (auto dest!: set_dropWhileD)

lemma kept_space: "kept U 32"
  by (simp add: kept_def is_space_def)

lemma is_space_32: "is_space U 32"
  by (simp add: is_space_def)

lemma single_spaced_spaces: "single_spaced U s \<Longrightarrow> \<forall>c \<in> set s. is_space U c \<longrightarrow> c = 32"
  by (induction s) auto

lemma single_spaced_iff:
  "\<forall>c \<in> set s. is_space U c \<longrightarrow> c = 32 \<Longrightarrow> single_spaced U s \<longleftrightarrow> \<not> double_space s"
proof (induction s rule: double_space.induct)
  case 1
  show ?case by simp
next
  case (2 c)
  then show ?case by simp
next
  case (3 c d cs)
  from "3.prems" have t: "\<forall>c \<in> set (d # cs). is_space U c \<longrightarrow> c = 32" by simp
  from "3.prems" have d: "is_space U d \<longleftrightarrow> d = 32" using is_space_32 [of U] by auto
  from "3.prems" have c: "is_space U c \<longleftrightarrow> c = 32" using is_space_32 [of U] by auto
  have "single_spaced U (c # d # cs) \<longleftrightarrow> (c = 32 \<longrightarrow> d \<noteq> 32) \<and> single_spaced U (d # cs)"
    using c d by auto
  with "3.IH" [OF t] show ?case by auto
qed

lemma clean_text_kept: "\<forall>c \<in> set (clean_text U x). kept U c"
  using set_strip [of U "sub_special U (sub_ws U x)"]
  by (auto simp: clean_text_def sub_special_def)

lemma clean_text_spaces: "\<forall>c \<in> set (clean_text U x). is_space U c \<longrightarrow> c = 32"
proof -
  have "\<forall>c \<in> set (sub_ws U x). is_space U c \<longrightarrow> c = 32"
    by (rule single_spaced_spaces) (rule single_spaced_sub_ws)
  then show ?thesis
    using set_strip [of U "sub_special U (sub_ws U x)"]
    by (auto simp: clean_text_def sub_special_def)
qed

lemma clean_text_of_kept:
  assumes "\<forall>c \<in> set y. kept U c"
  shows "clean_text U y = strip U (sub_ws U y)"
proof -
  have "\<forall>c \<in> set (sub_ws U y). kept U c"
    using assms set_sub_ws [of U y] kept_space by auto
  then have "sub_special U (sub_ws U y) = sub_ws U y"
    by (simp add: sub_special_def)
  then show ?thesis by (simp add: clean_text_def)
qed

text \<open>
  C2. The claim that cleaning is idempotent on every string fails: removing a character
  that stands between two spaces leaves a double space, which only a second pass
  collapses. What holds, for every string: cleaning the cleaned string changes nothing
  if and only if the cleaned string has no two adjacent spaces, that is, if and only if
  the removal step brought no two spaces together.
\<close>

theorem clean_text_idem_iff:
  "clean_text U (clean_text U x) = clean_text U x \<longleftrightarrow> \<not> double_space (clean_text U x)"
proof -
  let ?y = "clean_text U x"
  have k: "\<forall>c \<in> set ?y. kept U c" by (rule clean_text_kept)
  have sp: "\<forall>c \<in> set ?y. is_space U c \<longrightarrow> c = 32" by (rule clean_text_spaces)
  have c: "clean_text U ?y = strip U (sub_ws U ?y)" using k by (rule clean_text_of_kept)
  have ss: "single_spaced U ?y \<longleftrightarrow> \<not> double_space ?y" using sp by (rule single_spaced_iff)
  show ?thesis
  proof
    assume "clean_text U ?y = ?y"
    with c have "?y = strip U (sub_ws U ?y)" by simp
    moreover have "single_spaced U (strip U (sub_ws U ?y))"
      by (rule single_spaced_strip) (rule single_spaced_sub_ws)
    ultimately have "single_spaced U ?y" by simp
    with ss show "\<not> double_space ?y" by simp
  next
    assume "\<not> double_space ?y"
    with ss have "single_spaced U ?y" by simp
    then have "sub_ws U ?y = ?y" by (rule sub_ws_fixed)
    with c have "clean_text U ?y = strip U ?y" by simp
    also have "\<dots> = ?y"
      unfolding clean_text_def by (rule strip_idem)
    finally show "clean_text U ?y = ?y" .
  qed
qed

theorem clean_text_idem_iff_witness:
  "\<not> double_space (clean_text ascii_ucd (lit ''a@b (c),  d''))
   \<and> clean_text ascii_ucd (clean_text ascii_ucd (lit ''a@b (c),  d''))
       = clean_text ascii_ucd (lit ''a@b (c),  d'')
   \<and> double_space (clean_text ascii_ucd (lit ''a @ b''))"
proof -
  have h: "\<not> double_space (clean_text ascii_ucd (lit ''a@b (c),  d''))"
    by code_simp
  have g: "double_space (clean_text ascii_ucd (lit ''a @ b''))"
    by code_simp
  from h have "clean_text ascii_ucd (clean_text ascii_ucd (lit ''a@b (c),  d''))
       = clean_text ascii_ucd (lit ''a@b (c),  d'')"
    by (rule iffD2 [OF clean_text_idem_iff])
  with h g show ?thesis by (intro conjI)
qed

theorem clean_text_not_idempotent:
  "clean_text ascii_ucd (clean_text ascii_ucd (lit ''a @ b'')) \<noteq> clean_text ascii_ucd (lit ''a @ b'')"
  by code_simp

section \<open>Properties of content extraction\<close>

lemma find_filter:
  "soup_find P ns = (case filter P (elements ns) of [] \<Rightarrow> None | x # xs \<Rightarrow> Some x)"
proof (induction P ns rule: soup_find.induct)
  case (4 P n h c ch ns)
  show ?case
  proof (cases "P (Elem n h c ch)")
    case True
    then show ?thesis by simp
  next
    case False
    show ?thesis
    proof (cases "soup_find P ch")
      case None
      with 4 False have "filter P (elements ch) = []" by (simp split: list.splits)
      with 4 False None show ?thesis by simp
    next
      case (Some r)
      with 4 False obtain xs where "filter P (elements ch) = r # xs" by (auto split: list.splits)
      with False Some show ?thesis by simp
    qed
  qed
qed simp_all

text \<open>
  C3. The claim that the third rule takes the first element of any kind whose class
  matches fails: the code searches \<open>div\<close> tags only. What holds, for every document
  and over the tags left after the unwanted ones are removed: the text is that of the
  first \<open>main\<close> tag if there is one; else of the first \<open>article\<close> tag; else of
  the first \<open>div\<close> tag whose class matches \<open>content|main|article\<close> without
  regard to case; else of the whole remaining document. A document with both
  \<open>main\<close> and \<open>article\<close> gives the text of \<open>main\<close>.
\<close>

theorem main_content_priority:
  "fst (extract_main_content U soup) =
     (let rest = decompose_unwanted soup; es = elements rest
      in case filter (named (lit ''main'')) es of
           m # ms \<Rightarrow> get_text U (children m)
         | [] \<Rightarrow>
            (case filter (named (lit ''article'')) es of
               a # as \<Rightarrow> get_text U (children a)
             | [] \<Rightarrow>
                (case filter (\<lambda>e. named (lit ''div'') e \<and> class_matches U e) es of
                   d # ds \<Rightarrow> get_text U (children d)
                 | [] \<Rightarrow> get_text U rest)))"
proof -
  have d: "div_with_class U = (\<lambda>e. named (lit ''div'') e \<and> class_matches U e)"
    by (rule ext) (simp add: div_with_class_def)
  show ?thesis
    by (simp add: extract_main_content_def Let_def find_filter d split: list.splits)
qed

theorem main_content_priority_witness:
  "fst (extract_main_content ascii_ucd main_page) = lit ''M''"
proof -
  have "(let rest = decompose_unwanted main_page; es = elements rest
      in case filter (named (lit ''main'')) es of
           m # ms \<Rightarrow> get_text ascii_ucd (children m)
         | [] \<Rightarrow>
            (case filter (named (lit ''article'')) es of
               a # as \<Rightarrow> get_text ascii_ucd (children a)
             | [] \<Rightarrow>
                (case filter (\<lambda>e. named (lit ''div'') e \<and> class_matches ascii_ucd e) es of
                   d # ds \<Rightarrow> get_text ascii_ucd (children d)
                 | [] \<Rightarrow> get_text ascii_ucd rest))) = lit ''M''"
    by code_simp
  with main_content_priority [of ascii_ucd main_page] show ?thesis by (rule trans)
qed

theorem main_content_any_tag_counterexample:
  "fst (extract_main_content ascii_ucd demo_page) = lit ''Demo intro body about''
   \<and> claimed_main_content ascii_ucd demo_page = lit ''body about''"
  by code_simp



lemma scrape_url_Inr:
  assumes "requests_get S log url = Inr soup" and "scrape_url S U log url = Inr r"
  shows "\<exists>ls. join_all (urljoin S url) (anchor_hrefs (snd (extract_main_content U soup))) = Inr ls
          \<and> links r = take 5 ls
          \<and> content r = clean_text U (fst (extract_main_content U soup))"
  using assms
  by (auto simp: scrape_url_def Let_def split: sum.splits prod.splits)

lemma extract_main_content_soup: "snd (extract_main_content U soup) = decompose_unwanted soup"
  by (simp add: extract_main_content_def Let_def split: option.splits)














lemma strings_decompose:
  "t \<in> set (all_strings (decompose_unwanted ns)) \<Longrightarrow> set anc \<inter> set unwanted_tags = {}
     \<Longrightarrow> \<exists>anc'. (anc', t) \<in> set (texts_under anc ns) \<and> set anc' \<inter> set unwanted_tags = {}"
proof (induction ns arbitrary: anc rule: decompose_unwanted.induct)
  case 1
  then show ?case by simp
next
  case (2 s ns)
  from "2.prems"(1) have "t = s \<or> t \<in> set (all_strings (decompose_unwanted ns))" by auto
  then show ?case
  proof
    assume "t = s"
    then have "(anc, t) \<in> set (texts_under anc (Text s # ns))" by simp
    with "2.prems"(2) show ?thesis by blast
  next
    assume "t \<in> set (all_strings (decompose_unwanted ns))"
    from "2.IH" [OF this "2.prems"(2)] obtain anc' where
      "(anc', t) \<in> set (texts_under anc ns)" "set anc' \<inter> set unwanted_tags = {}" by blast
    then have "(anc', t) \<in> set (texts_under anc (Text s # ns)) \<and> set anc' \<inter> set unwanted_tags = {}"
      by simp
    then show ?thesis by blast
  qed
next
  case (3 s ns)
  from "3.prems"(1) have "t \<in> set (all_strings (decompose_unwanted ns))" by simp
  from "3.IH" [OF this "3.prems"(2)] show ?case by simp
next
  case (4 n h c ch ns)
  show ?case
  proof (cases "n \<in> set unwanted_tags")
    case True
    with "4.prems"(1) have a: "t \<in> set (all_strings (decompose_unwanted ns))" by simp
    from "4.IH"(1) [OF True a "4.prems"(2)] obtain anc' where
      "(anc', t) \<in> set (texts_under anc ns)" "set anc' \<inter> set unwanted_tags = {}" by blast
    then have "(anc', t) \<in> set (texts_under anc (Elem n h c ch # ns))
        \<and> set anc' \<inter> set unwanted_tags = {}" by simp
    then show ?thesis by blast
  next
    case False
    with "4.prems"(1) have "t \<in> set (all_strings (decompose_unwanted ch))
        \<or> t \<in> set (all_strings (decompose_unwanted ns))" by simp
    then show ?thesis
    proof
      assume a: "t \<in> set (all_strings (decompose_unwanted ch))"
      from False "4.prems"(2) have "set (n # anc) \<inter> set unwanted_tags = {}" by simp
      from "4.IH"(2) [OF False a this] obtain anc' where
        "(anc', t) \<in> set (texts_under (n # anc) ch)" "set anc' \<inter> set unwanted_tags = {}" by blast
      then have "(anc', t) \<in> set (texts_under anc (Elem n h c ch # ns))
          \<and> set anc' \<inter> set unwanted_tags = {}" by simp
      then show ?thesis by blast
    next
      assume a: "t \<in> set (all_strings (decompose_unwanted ns))"
      from "4.IH"(3) [OF False a "4.prems"(2)] obtain anc' where
        "(anc', t) \<in> set (texts_under anc ns)" "set anc' \<inter> set unwanted_tags = {}" by blast
      then have "(anc', t) \<in> set (texts_under anc (Elem n h c ch # ns))
          \<and> set anc' \<inter> set unwanted_tags = {}" by simp
      then show ?thesis by blast
    qed
  qed
qed

lemma own_href_mem: "v \<in> set (own_href n h) \<longleftrightarrow> n = lit ''a'' \<and> h = Some v"
  by (cases "n = lit ''a''"; cases h) (auto simp: own_href_def)

lemma anchors_decompose:
  "v \<in> set (anchor_hrefs (decompose_unwanted ns)) \<Longrightarrow> set anc \<inter> set unwanted_tags = {}
     \<Longrightarrow> \<exists>anc'. (anc', v) \<in> set (anchors_under anc ns) \<and> set anc' \<inter> set unwanted_tags = {}"
proof (induction ns arbitrary: anc rule: decompose_unwanted.induct)
  case 1
  then show ?case by simp
next
  case (2 s ns)
  from "2.prems"(1) have "v \<in> set (anchor_hrefs (decompose_unwanted ns))" by simp
  from "2.IH" [OF this "2.prems"(2)] show ?case by simp
next
  case (3 s ns)
  from "3.prems"(1) have "v \<in> set (anchor_hrefs (decompose_unwanted ns))" by simp
  from "3.IH" [OF this "3.prems"(2)] show ?case by simp
next
  case (4 n h c ch ns)
  show ?case
  proof (cases "n \<in> set unwanted_tags")
    case True
    with "4.prems"(1) have a: "v \<in> set (anchor_hrefs (decompose_unwanted ns))" by simp
    from "4.IH"(1) [OF True a "4.prems"(2)] obtain anc' where
      "(anc', v) \<in> set (anchors_under anc ns)" "set anc' \<inter> set unwanted_tags = {}" by blast
    then have "(anc', v) \<in> set (anchors_under anc (Elem n h c ch # ns))
        \<and> set anc' \<inter> set unwanted_tags = {}" by simp
    then show ?thesis by blast
  next
    case False
    with "4.prems"(1) have "(n = lit ''a'' \<and> h = Some v)
        \<or> v \<in> set (anchor_hrefs (decompose_unwanted ch))
        \<or> v \<in> set (anchor_hrefs (decompose_unwanted ns))"
      by (auto simp: own_href_mem)
    then show ?thesis
    proof (elim disjE)
      assume "n = lit ''a'' \<and> h = Some v"
      then have "(anc, v) \<in> set (anchors_under anc (Elem n h c ch # ns))"
        by (simp add: own_href_mem)
      with "4.prems"(2) show ?thesis by blast
    next
      assume a: "v \<in> set (anchor_hrefs (decompose_unwanted ch))"
      from False "4.prems"(2) have "set (n # anc) \<inter> set unwanted_tags = {}" by simp
      from "4.IH"(2) [OF False a this] obtain anc' where
        "(anc', v) \<in> set (anchors_under (n # anc) ch)" "set anc' \<inter> set unwanted_tags = {}" by blast
      then have "(anc', v) \<in> set (anchors_under anc (Elem n h c ch # ns))
          \<and> set anc' \<inter> set unwanted_tags = {}" by simp
      then show ?thesis by blast
    next
      assume a: "v \<in> set (anchor_hrefs (decompose_unwanted ns))"
      from "4.IH"(3) [OF False a "4.prems"(2)] obtain anc' where
        "(anc', v) \<in> set (anchors_under anc ns)" "set anc' \<inter> set unwanted_tags = {}" by blast
      then have "(anc', v) \<in> set (anchors_under anc (Elem n h c ch # ns))
          \<and> set anc' \<inter> set unwanted_tags = {}" by simp
      then show ?thesis by blast
    qed
  qed
qed

lemma find_strings:
  "soup_find P ns = Some m \<Longrightarrow> set (all_strings (children m)) \<subseteq> set (all_strings ns)"
proof (induction P ns rule: soup_find.induct)
  case (4 P n h c ch ns)
  show ?case
  proof (cases "P (Elem n h c ch)")
    case True
    with "4.prems" show ?thesis by auto
  next
    case False
    show ?thesis
    proof (cases "soup_find P ch")
      case None
      with False 4 show ?thesis by auto
    next
      case (Some r)
      with False 4 show ?thesis by auto
    qed
  qed
qed auto

lemma extract_main_content_text:
  "\<exists>X. fst (extract_main_content U soup) = get_text U X
       \<and> set (all_strings X) \<subseteq> set (all_strings (decompose_unwanted soup))"
proof -
  let ?s = "decompose_unwanted soup"
  have w: "fst (extract_main_content U soup) = get_text U ?s
      \<or> (\<exists>P m. soup_find P ?s = Some m \<and> fst (extract_main_content U soup) = get_text U (children m))"
    by (auto simp: extract_main_content_def Let_def split: option.splits)
  then show ?thesis
  proof
    assume "fst (extract_main_content U soup) = get_text U ?s"
    then show ?thesis by blast
  next
    assume "\<exists>P m. soup_find P ?s = Some m \<and> fst (extract_main_content U soup) = get_text U (children m)"
    then obtain P m where f: "soup_find P ?s = Some m"
      and g: "fst (extract_main_content U soup) = get_text U (children m)" by blast
    from f have "set (all_strings (children m)) \<subseteq> set (all_strings ?s)" by (rule find_strings)
    with g show ?thesis by blast
  qed
qed

lemma join_all_mem:
  "join_all f hs = Inr ls \<Longrightarrow> l \<in> set ls \<Longrightarrow> \<exists>h \<in> set hs. f h = Inr l"
  by (induction hs arbitrary: ls) (auto split: sum.splits)

text \<open>
  C6. For every page scraped successfully, the content is the cleaning of text pieces
  each of which is the stripped text of a string with no \<open>header\<close>, \<open>footer\<close>,
  \<open>nav\<close>, \<open>script\<close>, \<open>style\<close>, \<open>iframe\<close> or \<open>form\<close> tag around it in
  the document as fetched, and every link is the resolution of the \<open>href\<close> of an
  anchor with no such tag around it.
\<close>

theorem removed_elements_excluded:
  assumes "requests_get S log url = Inr soup" and "scrape_url S U log url = Inr r"
  shows "(\<exists>pieces. content r = clean_text U (join (lit '' '') pieces)
            \<and> (\<forall>p \<in> set pieces. \<exists>(anc, t) \<in> set (texts_under [] soup).
                   p = strip U t \<and> set anc \<inter> set unwanted_tags = {}))
         \<and> (\<forall>l \<in> set (links r). \<exists>(anc, v) \<in> set (anchors_under [] soup).
                   urljoin S url v = Inr l \<and> set anc \<inter> set unwanted_tags = {})"
proof (rule conjI)
  from scrape_url_Inr [OF assms] obtain ls where
    j: "join_all (urljoin S url) (anchor_hrefs (decompose_unwanted soup)) = Inr ls"
    and l: "links r = take 5 ls"
    and c: "content r = clean_text U (fst (extract_main_content U soup))"
    by (auto simp: extract_main_content_soup)
  from extract_main_content_text [of U soup] obtain X where
    x: "fst (extract_main_content U soup) = get_text U X"
    and sub: "set (all_strings X) \<subseteq> set (all_strings (decompose_unwanted soup))" by blast
  have "\<forall>p \<in> set (text_pieces U X). \<exists>(anc, t) \<in> set (texts_under [] soup).
                   p = strip U t \<and> set anc \<inter> set unwanted_tags = {}"
  proof
    fix p assume "p \<in> set (text_pieces U X)"
    then obtain t where t: "t \<in> set (all_strings X)" and p: "p = strip U t"
      by (auto simp: text_pieces_def)
    from t sub have "t \<in> set (all_strings (decompose_unwanted soup))" by blast
    from strings_decompose [OF this, of "[]"] obtain anc' where
      "(anc', t) \<in> set (texts_under [] soup)" "set anc' \<inter> set unwanted_tags = {}" by auto
    with p show "\<exists>(anc, t) \<in> set (texts_under [] soup).
                   p = strip U t \<and> set anc \<inter> set unwanted_tags = {}" by blast
  qed
  moreover from c x have "content r = clean_text U (join (lit '' '') (text_pieces U X))"
    by (simp add: get_text_def)
  ultimately show "\<exists>pieces. content r = clean_text U (join (lit '' '') pieces)
            \<and> (\<forall>p \<in> set pieces. \<exists>(anc, t) \<in> set (texts_under [] soup).
                   p = strip U t \<and> set anc \<inter> set unwanted_tags = {})" by blast
  show "\<forall>l \<in> set (links r). \<exists>(anc, v) \<in> set (anchors_under [] soup).
                   urljoin S url v = Inr l \<and> set anc \<inter> set unwanted_tags = {}"
  proof
    fix k assume "k \<in> set (links r)"
    with l have "k \<in> set ls" by (auto dest: in_set_takeD)
    from join_all_mem [OF j this] obtain v where
      v: "v \<in> set (anchor_hrefs (decompose_unwanted soup))" and u: "urljoin S url v = Inr k" by blast
    from anchors_decompose [OF v, of "[]"] obtain anc' where
      "(anc', v) \<in> set (anchors_under [] soup)" "set anc' \<inter> set unwanted_tags = {}" by auto
    with u show "\<exists>(anc, v) \<in> set (anchors_under [] soup).
                   urljoin S url v = Inr k \<and> set anc \<inter> set unwanted_tags = {}" by blast
  qed
qed

theorem removed_elements_excluded_witness:
  "requests_get demo_services [] (lit ''https://a.com/x'') = Inr demo_page
   \<and> scrape_url demo_services ascii_ucd [] (lit ''https://a.com/x'')
       = Inr \<lparr>title = PyStr (lit ''Demo''), content = lit ''Demo intro body about'',
              links = [lit ''https://a.com/x'', lit ''https://a.com/about'']\<rparr>
   \<and> (\<exists>pieces. lit ''Demo intro body about'' = clean_text ascii_ucd (join (lit '' '') pieces)
          \<and> (\<forall>p \<in> set pieces. \<exists>(anc, t) \<in> set (texts_under [] demo_page).
                 p = strip ascii_ucd t \<and> set anc \<inter> set unwanted_tags = {}))
   \<and> list_all (\<lambda>l. \<exists>(anc, v) \<in> set (anchors_under [] demo_page).
                 urljoin demo_services (lit ''https://a.com/x'') v = Inr l
                 \<and> set anc \<inter> set unwanted_tags = {})
        [lit ''https://a.com/x'', lit ''https://a.com/about'']"
proof -
  let ?r = "\<lparr>title = PyStr (lit ''Demo''), content = lit ''Demo intro body about'',
              links = [lit ''https://a.com/x'', lit ''https://a.com/about'']\<rparr>"
  have g: "requests_get demo_services [] (lit ''https://a.com/x'') = Inr demo_page"
    by code_simp
  have s: "scrape_url demo_services ascii_ucd [] (lit ''https://a.com/x'') = Inr ?r"
    by code_simp
  note w = removed_elements_excluded [OF g s]
  from conjunct1 [OF w]
  have 1: "\<exists>pieces. lit ''Demo intro body about'' = clean_text ascii_ucd (join (lit '' '') pieces)
          \<and> (\<forall>p \<in> set pieces. \<exists>(anc, t) \<in> set (texts_under [] demo_page).
                 p = strip ascii_ucd t \<and> set anc \<inter> set unwanted_tags = {})"
    by simp
  from conjunct2 [OF w]
  have 2: "list_all (\<lambda>l. \<exists>(anc, v) \<in> set (anchors_under [] demo_page).
                 urljoin demo_services (lit ''https://a.com/x'') v = Inr l
                 \<and> set anc \<inter> set unwanted_tags = {})
        [lit ''https://a.com/x'', lit ''https://a.com/about'']"
    by (simp add: list_all_iff)
  from g s 1 2 show ?thesis by (intro conjI)
qed

section \<open>Properties of the batch endpoint\<close>

lemma fetch_loop_prefix:
  assumes "\<forall>j<length pre. nonblank U (pre ! j) \<longrightarrow>
             (\<exists>r. scrape_url S U (log @ filter (nonblank U) (take j pre)) (pre ! j) = Inr r)"
  shows "\<exists>cont'. fetch_loop S U (pre @ rest) cont log
                   = fetch_loop S U rest cont' (log @ filter (nonblank U) pre)"
  using assms
proof (induction pre arbitrary: cont log)
  case Nil
  show ?case by auto
next
  case (Cons v pre)
  show ?case
  proof (cases "nonblank U v")
    case True
    from Cons.prems [rule_format, of 0] True
    obtain r where r: "scrape_url S U log v = Inr r" by auto
    have "\<forall>j<length pre. nonblank U (pre ! j) \<longrightarrow>
             (\<exists>r. scrape_url S U ((log @ [v]) @ filter (nonblank U) (take j pre)) (pre ! j) = Inr r)"
    proof (intro allI impI)
      fix j assume j: "j < length pre" and nb: "nonblank U (pre ! j)"
      from Cons.prems [rule_format, of "Suc j"] j nb True
      show "\<exists>r. scrape_url S U ((log @ [v]) @ filter (nonblank U) (take j pre)) (pre ! j) = Inr r"
        by simp
    qed
    from Cons.IH [OF this]
    obtain cont' where c: "fetch_loop S U (pre @ rest) (AList.update v r cont) (log @ [v])
        = fetch_loop S U rest cont' ((log @ [v]) @ filter (nonblank U) pre)" by blast
    from True have sv: "strip U v \<noteq> []" by (simp add: nonblank_def)
    from sv r c True have "fetch_loop S U ((v # pre) @ rest) cont log
        = fetch_loop S U rest cont' (log @ filter (nonblank U) (v # pre))" by simp
    then show ?thesis by blast
  next
    case False
    have "\<forall>j<length pre. nonblank U (pre ! j) \<longrightarrow>
             (\<exists>r. scrape_url S U (log @ filter (nonblank U) (take j pre)) (pre ! j) = Inr r)"
    proof (intro allI impI)
      fix j assume j: "j < length pre" and nb: "nonblank U (pre ! j)"
      from Cons.prems [rule_format, of "Suc j"] j nb False
      show "\<exists>r. scrape_url S U (log @ filter (nonblank U) (take j pre)) (pre ! j) = Inr r"
        by simp
    qed
    from Cons.IH [OF this]
    obtain cont' where c: "fetch_loop S U (pre @ rest) cont log
        = fetch_loop S U rest cont' (log @ filter (nonblank U) pre)" by blast
    from False have sv: "strip U v = []" by (simp add: nonblank_def)
    from sv c False have "fetch_loop S U ((v # pre) @ rest) cont log
        = fetch_loop S U rest cont' (log @ filter (nonblank U) (v # pre))" by simp
    then show ?thesis by blast
  qed
qed

text \<open>
  C1. Fail-fast: when the URLs before \<open>u\<close> that are not blank were all scraped
  successfully and scraping the non-blank URL \<open>u\<close> reports an error, the batch
  answers with HTTP 400 and exactly that error message, returns no content map, and the
  URLs handed to \<open>scrape_url\<close> are the non-blank ones up to and including \<open>u\<close>:
  nothing behind \<open>u\<close> is processed.
\<close>

theorem fetch_content_fail_fast:
  assumes ok: "\<forall>j<length pre. nonblank U (pre ! j) \<longrightarrow>
             (\<exists>r. scrape_url S U (filter (nonblank U) (take j pre)) (pre ! j) = Inr r)"
    and nb: "nonblank U u"
    and err: "scrape_url S U (filter (nonblank U) pre) u = Inl msg"
  shows "fetch_content S U (Some (pre @ u # post))
           = (Response 400 (ErrorBody msg), filter (nonblank U) pre @ [u])"
proof -
  from ok have "\<forall>j<length pre. nonblank U (pre ! j) \<longrightarrow>
             (\<exists>r. scrape_url S U ([] @ filter (nonblank U) (take j pre)) (pre ! j) = Inr r)"
    by simp
  from fetch_loop_prefix [OF this, of "u # post" "[]"]
  obtain cont' where "fetch_loop S U (pre @ u # post) [] []
      = fetch_loop S U (u # post) cont' (filter (nonblank U) pre)" by auto
  with nb err have "fetch_loop S U (pre @ u # post) [] []
      = (Response 400 (ErrorBody msg), filter (nonblank U) pre @ [u])"
    by (simp add: nonblank_def)
  then show ?thesis by (simp add: fetch_content_def)
qed

theorem fetch_content_fail_fast_witness:
  "nonblank ascii_ucd (lit ''http://bad.invalid'')
   \<and> scrape_url demo_services ascii_ucd [lit ''https://a.com/x''] (lit ''http://bad.invalid'')
       = Inl (lit ''Error scraping http://bad.invalid: connection failed'')
   \<and> fetch_content demo_services ascii_ucd
         (Some [lit ''https://a.com/x'', lit ''  '', lit ''http://bad.invalid'', lit ''https://a.com/x''])
       = (Response 400 (ErrorBody (lit ''Error scraping http://bad.invalid: connection failed'')),
          [lit ''https://a.com/x'', lit ''http://bad.invalid''])"
proof -
  let ?pre = "[lit ''https://a.com/x'', lit ''  '']"
  have "scrape_url demo_services ascii_ucd [] (lit ''https://a.com/x'')
      = Inr \<lparr>title = PyStr (lit ''Demo''), content = lit ''Demo intro body about'',
             links = [lit ''https://a.com/x'', lit ''https://a.com/about'']\<rparr>"
    by code_simp
  then have s0: "\<exists>r. scrape_url demo_services ascii_ucd [] (lit ''https://a.com/x'') = Inr r"
    by (rule exI)
  have b: "\<not> nonblank ascii_ucd (lit ''  '')"
    by code_simp
  have f: "filter (nonblank ascii_ucd) ?pre = [lit ''https://a.com/x'']"
    by code_simp
  have ok: "\<forall>j<length ?pre. nonblank ascii_ucd (?pre ! j) \<longrightarrow>
      (\<exists>r. scrape_url demo_services ascii_ucd (filter (nonblank ascii_ucd) (take j ?pre)) (?pre ! j) = Inr r)"
    using s0 b by (simp add: All_less_Suc)
  have nb: "nonblank ascii_ucd (lit ''http://bad.invalid'')"
    by code_simp
  have err: "scrape_url demo_services ascii_ucd (filter (nonblank ascii_ucd) ?pre) (lit ''http://bad.invalid'')
       = Inl (lit ''Error scraping http://bad.invalid: connection failed'')"
    by code_simp
  from fetch_content_fail_fast [OF ok nb err, of "[lit ''https://a.com/x'']"] f nb err
  show ?thesis by simp
qed

lemma scrape_url_error: "scrape_url S U log url = Inl err \<Longrightarrow> \<exists>e. err = scrape_error url e"
  by (auto simp: scrape_url_def Let_def split: sum.splits prod.splits)

lemma scrape_error_neq: "scrape_error url e \<noteq> lit ''No URLs provided''"
  by (simp add: scrape_error_def lit_def)

lemma fetch_loop_response:
  "(\<exists>c. fst (fetch_loop S U us cont log) = Response 200 (ContentBody c))
   \<or> (\<exists>url e. fst (fetch_loop S U us cont log) = Response 400 (ErrorBody (scrape_error url e)))"
proof (induction us arbitrary: cont log)
  case Nil
  show ?case by simp
next
  case (Cons u us)
  show ?case
  proof (cases "strip U u \<noteq> []")
    case False
    with Cons.IH [of cont log] show ?thesis by simp
  next
    case True
    show ?thesis
    proof (cases "scrape_url S U log u")
      case (Inl err)
      then obtain e where "err = scrape_error u e" using scrape_url_error by blast
      with True Inl show ?thesis by auto
    next
      case (Inr r)
      with True Cons.IH [of "AList.update u r cont" "log @ [u]"] show ?thesis by simp
    qed
  qed
qed

lemma fetch_loop_log:
  "\<forall>v \<in> set log. nonblank U v \<Longrightarrow> \<forall>v \<in> set (snd (fetch_loop S U us cont log)). nonblank U v"
proof (induction us arbitrary: cont log)
  case Nil
  then show ?case by simp
next
  case (Cons u us)
  show ?case
  proof (cases "strip U u \<noteq> []")
    case False
    with Cons show ?thesis by simp
  next
    case True
    then have l: "\<forall>v \<in> set (log @ [u]). nonblank U v" using Cons.prems by (simp add: nonblank_def)
    show ?thesis
    proof (cases "scrape_url S U log u")
      case (Inl err)
      with True l show ?thesis by simp
    next
      case (Inr r)
      with True Cons.IH [OF l, of "AList.update u r cont"] show ?thesis by simp
    qed
  qed
qed

lemma fetch_loop_blank:
  "\<forall>u \<in> set us. \<not> nonblank U u \<Longrightarrow> fetch_loop S U us cont log = (Response 200 (ContentBody cont), log)"
  by (induction us) (simp_all add: nonblank_def)

lemma fetch_loop_filter:
  "fetch_loop S U us cont log = fetch_loop S U (filter (nonblank U) us) cont log"
proof (induction us arbitrary: cont log)
  case Nil
  show ?case by simp
next
  case (Cons u us)
  show ?case
  proof (cases "nonblank U u")
    case True
    then have s: "strip U u \<noteq> []" by (simp add: nonblank_def)
    show ?thesis
    proof (cases "scrape_url S U log u")
      case (Inl e)
      with True s show ?thesis by simp
    next
      case (Inr r)
      with True s Cons.IH [of "AList.update u r cont" "log @ [u]"] show ?thesis by simp
    qed
  next
    case False
    then have s: "strip U u = []" by (simp add: nonblank_def)
    with False Cons.IH [of cont log] show ?thesis by simp
  qed
qed

text \<open>
  C7. The batch endpoint answers 400 "No URLs provided" exactly when the list of URLs is
  empty (an absent key counts as the empty list); no blank URL is ever handed to
  \<open>scrape_url\<close>; a non-empty list of blank URLs only yields a successful
  response with an empty content map and no fetch; and blank URLs are skipped: a list
  with some URL that is not blank gives the response and the fetches of the same list
  with its blank URLs left out.
\<close>

theorem fetch_content_validation:
  "(fst (fetch_content S U urls_field) = Response 400 (ErrorBody (lit ''No URLs provided''))
      \<longleftrightarrow> (case urls_field of None \<Rightarrow> [] | Some us \<Rightarrow> us) = [])
   \<and> (\<forall>v \<in> set (snd (fetch_content S U urls_field)). nonblank U v)
   \<and> (\<forall>us. us \<noteq> [] \<and> (\<forall>u \<in> set us. \<not> nonblank U u)
          \<longrightarrow> fetch_content S U (Some us) = (Response 200 (ContentBody []), []))
   \<and> (\<forall>us. filter (nonblank U) us \<noteq> []
          \<longrightarrow> fetch_content S U (Some us) = fetch_content S U (Some (filter (nonblank U) us)))"
proof (intro conjI allI impI)
  let ?us = "case urls_field of None \<Rightarrow> [] | Some us \<Rightarrow> us"
  show "fst (fetch_content S U urls_field) = Response 400 (ErrorBody (lit ''No URLs provided''))
      \<longleftrightarrow> ?us = []"
  proof (cases "?us = []")
    case True
    then show ?thesis by (simp add: fetch_content_def)
  next
    case False
    then have f: "fetch_content S U urls_field = fetch_loop S U ?us [] []"
      by (simp add: fetch_content_def)
    from fetch_loop_response [of S U ?us "[]" "[]"] scrape_error_neq
    have "fst (fetch_loop S U ?us [] []) \<noteq> Response 400 (ErrorBody (lit ''No URLs provided''))"
      by auto
    with f False show ?thesis by simp
  qed
next
  show "\<forall>v \<in> set (snd (fetch_content S U urls_field)). nonblank U v"
    using fetch_loop_log [of "[]" U S _ "[]"] by (simp add: fetch_content_def Let_def)
next
  fix us assume "us \<noteq> [] \<and> (\<forall>u \<in> set us. \<not> nonblank U u)"
  then show "fetch_content S U (Some us) = (Response 200 (ContentBody []), [])"
    by (simp add: fetch_content_def fetch_loop_blank)
next
  fix us assume f: "filter (nonblank U) us \<noteq> []"
  then have "us \<noteq> []" by auto
  with f have "fetch_content S U (Some us) = fetch_loop S U us [] []"
    and "fetch_content S U (Some (filter (nonblank U) us)) = fetch_loop S U (filter (nonblank U) us) [] []"
    by (simp_all add: fetch_content_def)
  then show "fetch_content S U (Some us) = fetch_content S U (Some (filter (nonblank U) us))"
    using fetch_loop_filter [of S U us "[]" "[]"] by simp
qed

theorem fetch_content_validation_witness:
  "fst (fetch_content demo_services ascii_ucd (Some [])) = Response 400 (ErrorBody (lit ''No URLs provided''))
   \<and> fst (fetch_content demo_services ascii_ucd (Some [lit ''http://bad.invalid'']))
       \<noteq> Response 400 (ErrorBody (lit ''No URLs provided''))
   \<and> fetch_content demo_services ascii_ucd (Some [lit ''  '', []]) = (Response 200 (ContentBody []), [])
   \<and> fetch_content demo_services ascii_ucd (Some [lit ''  '', lit ''http://bad.invalid''])
       = fetch_content demo_services ascii_ucd (Some [lit ''http://bad.invalid''])
   \<and> fetch_content demo_services ascii_ucd (Some [lit ''  '', lit ''http://bad.invalid''])
       = (Response 400 (ErrorBody (lit ''Error scraping http://bad.invalid: connection failed'')),
          [lit ''http://bad.invalid''])"
proof -
  note v = fetch_content_validation [of demo_services ascii_ucd "Some []"]
  have b1: "\<not> nonblank ascii_ucd (lit ''  '')" by code_simp
  have b2: "\<not> nonblank ascii_ucd []" by code_simp
  have b3: "nonblank ascii_ucd (lit ''http://bad.invalid'')" by code_simp
  from b1 b2 have b: "[lit ''  '', []] \<noteq> [] \<and> (\<forall>u \<in> set [lit ''  '', []]. \<not> nonblank ascii_ucd u)"
    by simp
  have 1: "fst (fetch_content demo_services ascii_ucd (Some [])) = Response 400 (ErrorBody (lit ''No URLs provided''))"
    using conjunct1 [OF v] by simp
  have 2: "fst (fetch_content demo_services ascii_ucd (Some [lit ''http://bad.invalid'']))
       \<noteq> Response 400 (ErrorBody (lit ''No URLs provided''))"
    using conjunct1 [OF fetch_content_validation [of demo_services ascii_ucd "Some [lit ''http://bad.invalid'']"]]
    by simp
  have 3: "fetch_content demo_services ascii_ucd (Some [lit ''  '', []]) = (Response 200 (ContentBody []), [])"
    using spec [OF conjunct1 [OF conjunct2 [OF conjunct2 [OF v]]], of "[lit ''  '', []]"] b
    by (rule mp)
  have f: "filter (nonblank ascii_ucd) [lit ''  '', lit ''http://bad.invalid''] = [lit ''http://bad.invalid'']"
    using b1 b3 by simp
  then have ne: "filter (nonblank ascii_ucd) [lit ''  '', lit ''http://bad.invalid''] \<noteq> []"
    by simp
  have "fetch_content demo_services ascii_ucd (Some [lit ''  '', lit ''http://bad.invalid''])
       = fetch_content demo_services ascii_ucd
           (Some (filter (nonblank ascii_ucd) [lit ''  '', lit ''http://bad.invalid'']))"
    using spec [OF conjunct2 [OF conjunct2 [OF conjunct2 [OF v]]], of "[lit ''  '', lit ''http://bad.invalid'']"] ne
    by (rule mp)
  with f have 4: "fetch_content demo_services ascii_ucd (Some [lit ''  '', lit ''http://bad.invalid''])
       = fetch_content demo_services ascii_ucd (Some [lit ''http://bad.invalid''])"
    by simp
  have 5: "fetch_content demo_services ascii_ucd (Some [lit ''  '', lit ''http://bad.invalid''])
       = (Response 400 (ErrorBody (lit ''Error scraping http://bad.invalid: connection failed'')),
          [lit ''http://bad.invalid''])"
    by code_simp
  from 1 2 3 4 5 show ?thesis by (intro conjI)
qed

section \<open>Properties of the question endpoint\<close>

text \<open>
  C5. The claim fails for a request whose question is not a string: the question is
  stripped before either check, so a content map that is empty together with a
  \<open>null\<close> question is answered with HTTP 500. What holds: when the question is a
  string (or absent) and the content is a map (or absent), and the map is empty or the
  question is empty after stripping, the handler answers HTTP 400 with the matching
  message and the list of prompts passed to the model stays empty:
  \<open>generate_content\<close> is not called.
\<close>

theorem ask_question_validation:
  assumes "dict_get flds (lit ''question'') (JStr []) = JStr q"
    and "dict_get flds (lit ''content'') (JObj []) = JObj cont"
    and "cont = [] \<or> strip U q = []"
  shows "ask_question S U I (JObj flds)
           = (Response 400 (ErrorBody (if cont = [] then lit ''No content provided''
                                        else lit ''No question provided'')), [])"
  using assms by (auto simp: ask_question_def Let_def py_len_def)

theorem ask_question_validation_witness:
  "ask_question demo_services ascii_ucd demo_interp
     (JObj [(lit ''content'', JObj [(lit ''https://a.com/x'', JNull)]), (lit ''question'', JStr (lit ''   ''))])
     = (Response 400 (ErrorBody (lit ''No question provided'')), [])
   \<and> ask_question demo_services ascii_ucd demo_interp
     (JObj [(lit ''content'', JObj []), (lit ''question'', JStr (lit ''why?''))])
     = (Response 400 (ErrorBody (lit ''No content provided'')), [])
   \<and> ask_question demo_services ascii_ucd demo_interp (JObj [])
     = (Response 400 (ErrorBody (lit ''No content provided'')), [])"
proof -
  let ?f1 = "[(lit ''content'', JObj [(lit ''https://a.com/x'', JNull)]), (lit ''question'', JStr (lit ''   ''))]"
  let ?f2 = "[(lit ''content'', JObj []), (lit ''question'', JStr (lit ''why?''))]"
  have q1: "dict_get ?f1 (lit ''question'') (JStr []) = JStr (lit ''   '')" by code_simp
  have c1: "dict_get ?f1 (lit ''content'') (JObj []) = JObj [(lit ''https://a.com/x'', JNull)]" by code_simp
  have b1: "[(lit ''https://a.com/x'', JNull)] = [] \<or> strip ascii_ucd (lit ''   '') = []" by code_simp
  have q2: "dict_get ?f2 (lit ''question'') (JStr []) = JStr (lit ''why?'')" by code_simp
  have c2: "dict_get ?f2 (lit ''content'') (JObj []) = JObj []" by code_simp
  have q3: "dict_get [] (lit ''question'') (JStr []) = JStr []" by code_simp
  have c3: "dict_get [] (lit ''content'') (JObj []) = JObj []" by code_simp
  from ask_question_validation [OF q1 c1 b1, of demo_services demo_interp]
  have 1: "ask_question demo_services ascii_ucd demo_interp (JObj ?f1)
     = (Response 400 (ErrorBody (lit ''No question provided'')), [])" by simp
  from ask_question_validation [OF q2 c2, of ascii_ucd demo_services demo_interp]
  have 2: "ask_question demo_services ascii_ucd demo_interp (JObj ?f2)
     = (Response 400 (ErrorBody (lit ''No content provided'')), [])" by simp
  from ask_question_validation [OF q3 c3, of ascii_ucd demo_services demo_interp]
  have 3: "ask_question demo_services ascii_ucd demo_interp (JObj [])
     = (Response 400 (ErrorBody (lit ''No content provided'')), [])" by simp
  from 1 2 3 show ?thesis by (intro conjI)
qed

theorem ask_question_null_question_counterexample:
  "ask_question demo_services ascii_ucd demo_interp
     (JObj [(lit ''content'', JObj []), (lit ''question'', JNull)])
   = (Response 500 (ErrorBody (quoted (lit ''NoneType'') @ lit '' object has no attribute ''
                                @ quoted (lit ''strip''))), [])"
  by code_simp

lemma context_parts_eq:
  assumes "\<forall>kv \<in> set cont. \<forall>ttl c. entry_fields (snd kv) = Some (ttl, c)
             \<longrightarrow> (\<exists>sliced. content_slice I c = Inr sliced)"
  shows "context_parts I cont parts = Inr (parts @ map (entry_block I) (filter contributes cont))"
  using assms
proof (induction cont arbitrary: parts)
  case Nil
  show ?case by simp
next
  case (Cons kv cont)
  obtain url d where kv: "kv = (url, d)" by (cases kv)
  from Cons.prems have rest: "\<forall>kv \<in> set cont. \<forall>ttl c. entry_fields (snd kv) = Some (ttl, c)
             \<longrightarrow> (\<exists>sliced. content_slice I c = Inr sliced)" by simp
  note ih = Cons.IH [OF rest]
  show ?case
  proof (cases "entry_fields d")
    case None
    with kv ih [of parts] show ?thesis by (simp add: contributes_def)
  next
    case (Some tc)
    obtain ttl c where tc: "tc = (ttl, c)" by (cases tc)
    from Cons.prems kv Some tc obtain sliced where sl: "content_slice I c = Inr sliced" by auto
    from kv Some tc sl ih [of "parts @ [context_block I url ttl sliced]"]
    show ?thesis by (simp add: contributes_def entry_block_def)
  qed
qed

lemma contributes_iff:
  "contributes kv \<longleftrightarrow> (\<exists>r ttl c. snd kv = JObj r \<and> map_of r (lit ''title'') = Some ttl
                              \<and> map_of r (lit ''content'') = Some c)"
  by (auto simp: contributes_def entry_fields_def split: json.splits option.splits)

lemma ask_question_prompt:
  assumes "dict_get flds (lit ''question'') (JStr []) = JStr q" and "strip U q \<noteq> []"
    and "dict_get flds (lit ''content'') (JObj []) = JObj cont" and "cont \<noteq> []"
    and "\<forall>kv \<in> set cont. \<forall>ttl c. entry_fields (snd kv) = Some (ttl, c)
             \<longrightarrow> (\<exists>sliced. content_slice I c = Inr sliced)"
  shows "snd (ask_question S U I (JObj flds))
           = [build_prompt (strip U q) (join separator (map (entry_block I) (filter contributes cont)))]"
  using assms(1-4) context_parts_eq [OF assms(5), of "[]"]
  by (simp add: ask_question_def Let_def py_len_def split: sum.splits)

text \<open>
  C8. The claim fails for a record whose content is not a string: slicing a number
  raises, the request is answered with HTTP 500 and no prompt is assembled. What
  holds: for a non-empty content map in which the content of every record that has
  both a title and a content key is a string, and a question that is not blank, the one
  prompt sent to the model is the template around the stripped question and the
  context; the context is one block per entry that has both keys, in the map's order,
  joined by the separator \<open>---\<close> between blank lines; an entry lacking either key
  (or not a dictionary) gives no block; a block carries the URL, the title and the
  first 1500 characters of the content.
\<close>

theorem prompt_blocks:
  assumes "dict_get flds (lit ''question'') (JStr []) = JStr q" and "strip U q \<noteq> []"
    and "dict_get flds (lit ''content'') (JObj []) = JObj cont" and "cont \<noteq> []"
    and str: "\<forall>kv \<in> set cont. \<forall>ttl c. entry_fields (snd kv) = Some (ttl, c) \<longrightarrow> (\<exists>s. c = JStr s)"
  shows "snd (ask_question S U I (JObj flds))
           = [prompt_head @ strip U q @ prompt_middle
              @ join (lit ''\<newline>\<newline>---\<newline>\<newline>'') (map (entry_block I) (filter contributes cont))
              @ prompt_tail]
         \<and> (\<forall>kv. contributes kv \<longleftrightarrow>
                (\<exists>r ttl c. snd kv = JObj r \<and> map_of r (lit ''title'') = Some ttl
                          \<and> map_of r (lit ''content'') = Some c))
         \<and> (\<forall>url r ttl s. map_of r (lit ''title'') = Some ttl \<and> map_of r (lit ''content'') = Some (JStr s)
               \<longrightarrow> entry_block I (url, JObj r)
                   = lit ''\<newline>Source: '' @ url @ lit ''\<newline>Title: '' @ py_str I ttl
                     @ lit ''\<newline>Content:\<newline>'' @ take 1500 s
                     @ lit ''  # Limit content length per URL\<newline>                ''
                 \<and> length (take 1500 s) = min (length s) 1500)"
proof (intro conjI allI impI)
  have ok: "\<forall>kv \<in> set cont. \<forall>ttl c. entry_fields (snd kv) = Some (ttl, c)
             \<longrightarrow> (\<exists>sliced. content_slice I c = Inr sliced)"
    using str by (fastforce simp: content_slice_def)
  show "snd (ask_question S U I (JObj flds))
           = [prompt_head @ strip U q @ prompt_middle
              @ join (lit ''\<newline>\<newline>---\<newline>\<newline>'') (map (entry_block I) (filter contributes cont))
              @ prompt_tail]"
    using ask_question_prompt [OF assms(1-4) ok] by (simp add: build_prompt_def separator_def)
next
  fix kv show "contributes kv \<longleftrightarrow>
                (\<exists>r ttl c. snd kv = JObj r \<and> map_of r (lit ''title'') = Some ttl
                          \<and> map_of r (lit ''content'') = Some c)"
    by (rule contributes_iff)
next
  fix url r ttl s
  assume "map_of r (lit ''title'') = Some ttl \<and> map_of r (lit ''content'') = Some (JStr s)"
  then show "entry_block I (url, JObj r)
                   = lit ''\<newline>Source: '' @ url @ lit ''\<newline>Title: '' @ py_str I ttl
                     @ lit ''\<newline>Content:\<newline>'' @ take 1500 s
                     @ lit ''  # Limit content length per URL\<newline>                ''"
    by (simp add: entry_block_def entry_fields_def content_slice_def context_block_def
          stray_comment_def lit_def)
next
  fix s :: pystr show "length (take 1500 s) = min (length s) 1500" by simp
qed

theorem prompt_blocks_witness:
  "snd (ask_question demo_services ascii_ucd demo_interp
          (JObj [(lit ''question'', JStr (lit '' why? '')),
                 (lit ''content'',
                  JObj [(lit ''https://a.com/x'',
                         JObj [(lit ''title'', JStr (lit ''Demo'')), (lit ''content'', JStr (lit ''intro body'')),
                               (lit ''links'', JArr [])]),
                        (lit ''https://b.org'', JObj [(lit ''content'', JStr (lit ''untitled''))]),
                        (lit ''https://c.net'', JInt 7),
                        (lit ''https://d.io'', JObj [(lit ''title'', JNull), (lit ''content'', JStr [])])])]))
     = [prompt_head @ lit ''why?'' @ prompt_middle
        @ lit ''\<newline>Source: https://a.com/x\<newline>Title: Demo\<newline>Content:\<newline>intro body  # Limit content length per URL\<newline>                ''
        @ lit ''\<newline>\<newline>---\<newline>\<newline>''
        @ lit ''\<newline>Source: https://d.io\<newline>Title: None\<newline>Content:\<newline>  # Limit content length per URL\<newline>                ''
        @ prompt_tail]"
proof -
  let ?cont = "[(lit ''https://a.com/x'',
                         JObj [(lit ''title'', JStr (lit ''Demo'')), (lit ''content'', JStr (lit ''intro body'')),
                               (lit ''links'', JArr [])]),
                        (lit ''https://b.org'', JObj [(lit ''content'', JStr (lit ''untitled''))]),
                        (lit ''https://c.net'', JInt 7),
                        (lit ''https://d.io'', JObj [(lit ''title'', JNull), (lit ''content'', JStr [])])]"
  let ?flds = "[(lit ''question'', JStr (lit '' why? '')), (lit ''content'', JObj ?cont)]"
  have qf: "dict_get ?flds (lit ''question'') (JStr []) = JStr (lit '' why? '')" by code_simp
  have cf: "dict_get ?flds (lit ''content'') (JObj []) = JObj ?cont" by code_simp
  have c: "?cont \<noteq> []" by simp
  have s: "strip ascii_ucd (lit '' why? '') = lit ''why?''" by code_simp
  have q: "strip ascii_ucd (lit '' why? '') \<noteq> []" by code_simp
  have e1: "entry_fields (JObj [(lit ''title'', JStr (lit ''Demo'')), (lit ''content'', JStr (lit ''intro body'')),
                               (lit ''links'', JArr [])]) = Some (JStr (lit ''Demo''), JStr (lit ''intro body''))"
    by code_simp
  have e2: "entry_fields (JObj [(lit ''content'', JStr (lit ''untitled''))]) = None" by code_simp
  have e3: "entry_fields (JInt 7) = None" by code_simp
  have e4: "entry_fields (JObj [(lit ''title'', JNull), (lit ''content'', JStr [])]) = Some (JNull, JStr [])"
    by code_simp
  have str: "\<forall>kv \<in> set ?cont. \<forall>ttl c. entry_fields (snd kv) = Some (ttl, c) \<longrightarrow> (\<exists>s. c = JStr s)"
    using e1 e2 e3 e4 by simp
  have j: "join (lit ''\<newline>\<newline>---\<newline>\<newline>'') (map (entry_block demo_interp) (filter contributes ?cont))
      = lit ''\<newline>Source: https://a.com/x\<newline>Title: Demo\<newline>Content:\<newline>intro body  # Limit content length per URL\<newline>                ''
        @ lit ''\<newline>\<newline>---\<newline>\<newline>''
        @ lit ''\<newline>Source: https://d.io\<newline>Title: None\<newline>Content:\<newline>  # Limit content length per URL\<newline>                ''"
    by code_simp
  from conjunct1 [OF prompt_blocks [OF qf q cf c str, of demo_services demo_interp]] s j
  show ?thesis by simp
qed

theorem prompt_blocks_number_content_counterexample:
  "ask_question demo_services ascii_ucd demo_interp
     (JObj [(lit ''question'', JStr (lit ''why?'')),
            (lit ''content'',
             JObj [(lit ''https://a.com/x'',
                    JObj [(lit ''title'', JStr (lit ''Demo'')), (lit ''content'', JInt 5)])])])
   = (Response 500 (ErrorBody (quoted (lit ''int'') @ lit '' object is not subscriptable'')), [])"
  by code_simp

lemma join_mem: "x \<in> set xs \<Longrightarrow> \<exists>a b. join sep xs = a @ x @ b"
proof (induction sep xs rule: join.induct)
  case (1 sep)
  then show ?case by simp
next
  case (2 sep y)
  then have "join sep [y] = [] @ x @ []" by simp
  then show ?case by blast
next
  case (3 sep y z zs)
  show ?case
  proof (cases "x = y")
    case True
    then have "join sep (y # z # zs) = [] @ x @ (sep @ join sep (z # zs))" by simp
    then show ?thesis by blast
  next
    case False
    with 3 obtain a b where "join sep (z # zs) = a @ x @ b" by auto
    then have "join sep (y # z # zs) = (y @ sep @ a) @ x @ b" by simp
    then show ?thesis by blast
  qed
qed

text \<open>
  C10. For every entry that contributes a block to the prompt (the prompt being
  assembled: the question is a string that is not blank and no content slice raises),
  the prompt sent to the model contains that entry's block, in which the sliced content
  (the first 1500 characters of a string) is followed at once, before the next line
  feed, by the stray text \<open>  # Limit content length per URL\<close> that the
  template carries.
\<close>

theorem stray_comment_in_prompt:
  assumes "dict_get flds (lit ''question'') (JStr []) = JStr q" and "strip U q \<noteq> []"
    and "dict_get flds (lit ''content'') (JObj []) = JObj cont"
    and mem: "(url, d) \<in> set cont" and ef: "entry_fields d = Some (ttl, c)"
    and ok: "\<forall>kv \<in> set cont. \<forall>ttl c. entry_fields (snd kv) = Some (ttl, c)
             \<longrightarrow> (\<exists>sliced. content_slice I c = Inr sliced)"
  shows "\<exists>pre post sliced.
           content_slice I c = Inr sliced
           \<and> (\<forall>s. c = JStr s \<longrightarrow> sliced = take 1500 s)
           \<and> snd (ask_question S U I (JObj flds))
               = [pre @ lit ''\<newline>Source: '' @ url @ lit ''\<newline>Title: '' @ py_str I ttl
                  @ lit ''\<newline>Content:\<newline>'' @ sliced
                  @ lit ''  # Limit content length per URL'' @ lit ''\<newline>'' @ post]"
proof -
  let ?kv = "(url, d)"
  from mem have ne: "cont \<noteq> []" by auto
  from ok mem ef obtain sliced where sl: "content_slice I c = Inr sliced" by fastforce
  then have st: "\<forall>s. c = JStr s \<longrightarrow> sliced = take 1500 s" by (auto simp: content_slice_def)
  from ef have "contributes ?kv" by (simp add: contributes_def)
  with mem have "entry_block I ?kv \<in> set (map (entry_block I) (filter contributes cont))" by auto
  then obtain a b where
    j: "join separator (map (entry_block I) (filter contributes cont)) = a @ entry_block I ?kv @ b"
    using join_mem by blast
  have e: "entry_block I ?kv = lit ''\<newline>Source: '' @ url @ lit ''\<newline>Title: '' @ py_str I ttl
        @ lit ''\<newline>Content:\<newline>'' @ sliced
        @ lit ''  # Limit content length per URL'' @ lit ''\<newline>'' @ lit ''                ''"
    using ef sl by (simp add: entry_block_def context_block_def stray_comment_def lit_def)
  have "snd (ask_question S U I (JObj flds))
      = [(prompt_head @ strip U q @ prompt_middle @ a)
         @ lit ''\<newline>Source: '' @ url @ lit ''\<newline>Title: '' @ py_str I ttl
         @ lit ''\<newline>Content:\<newline>'' @ sliced
         @ lit ''  # Limit content length per URL'' @ lit ''\<newline>''
         @ (lit ''                '' @ b @ prompt_tail)]"
    using ask_question_prompt [OF assms(1-3) ne ok, of S] by (simp add: build_prompt_def j e)
  with sl st show ?thesis by blast
qed

theorem stray_comment_in_prompt_witness:
  "\<exists>pre post sliced.
     content_slice demo_interp (JStr (lit ''intro body'')) = Inr sliced
     \<and> (\<forall>s. JStr (lit ''intro body'') = JStr s \<longrightarrow> sliced = take 1500 s)
     \<and> snd (ask_question demo_services ascii_ucd demo_interp
            (JObj [(lit ''question'', JStr (lit ''why?'')),
                   (lit ''content'',
                    JObj [(lit ''https://c.net'', JNull),
                          (lit ''https://a.com/x'',
                           JObj [(lit ''title'', JStr (lit ''Demo'')),
                                 (lit ''content'', JStr (lit ''intro body''))])])]))
       = [pre @ lit ''\<newline>Source: '' @ lit ''https://a.com/x''
          @ lit ''\<newline>Title: '' @ py_str demo_interp (JStr (lit ''Demo''))
          @ lit ''\<newline>Content:\<newline>'' @ sliced
          @ lit ''  # Limit content length per URL'' @ lit ''\<newline>'' @ post]"
proof -
  let ?d = "JObj [(lit ''title'', JStr (lit ''Demo'')), (lit ''content'', JStr (lit ''intro body''))]"
  let ?cont = "[(lit ''https://c.net'', JNull), (lit ''https://a.com/x'', ?d)]"
  let ?flds = "[(lit ''question'', JStr (lit ''why?'')), (lit ''content'', JObj ?cont)]"
  have qf: "dict_get ?flds (lit ''question'') (JStr []) = JStr (lit ''why?'')" by code_simp
  have cf: "dict_get ?flds (lit ''content'') (JObj []) = JObj ?cont" by code_simp
  have q: "strip ascii_ucd (lit ''why?'') \<noteq> []" by code_simp
  have m: "(lit ''https://a.com/x'', ?d) \<in> set ?cont" by simp
  have e1: "entry_fields JNull = None" by code_simp
  have e2: "entry_fields ?d = Some (JStr (lit ''Demo''), JStr (lit ''intro body''))" by code_simp
  have ok: "\<forall>kv \<in> set ?cont. \<forall>ttl c. entry_fields (snd kv) = Some (ttl, c)
             \<longrightarrow> (\<exists>sliced. content_slice demo_interp c = Inr sliced)"
    using e1 e2 by (simp add: content_slice_def)
  from qf q cf m e2 ok show ?thesis by (rule stray_comment_in_prompt)
qed

section \<open>Properties of the post-processor\<close>

text \<open>
  C9. On the scenario of the claim the four rewrites give the heading, the two line
  breaks, the bold quotation, and in front of the last line the replacement literal of
  the source: the code points U+00E2, U+20AC, U+00A2 and a space. The bullet glyph
  U+2022 (code point 8226) does not occur in the output.
\<close>

theorem post_process_example:
  \<open>post_process U (lit ''1. Hello\<newline>\<newline>World says "hi" and\<newline>- a bullet'')
     = lit ''<h3>1. Hello</h3><br><br>World says <b>"hi"</b> and\<newline>''
       @ [226, 8364, 162, 32] @ lit ''a bullet''
   \<and> 8226 \<notin> set (post_process U (lit ''1. Hello\<newline>\<newline>World says "hi" and\<newline>- a bullet''))\<close>
  by (simp add: post_process_def lit_def heading_match_def heading_def is_digit_def is_space_def
        quote_match_def bullet_match_def bullet_replacement_def)

theorem post_process_example_witness:
  \<open>post_process ascii_ucd (lit ''1. Hello\<newline>\<newline>World says "hi" and\<newline>- a bullet'')
     = lit ''<h3>1. Hello</h3><br><br>World says <b>"hi"</b> and\<newline>''
       @ [226, 8364, 162, 32] @ lit ''a bullet''
   \<and> 8226 \<notin> set (post_process ascii_ucd (lit ''1. Hello\<newline>\<newline>World says "hi" and\<newline>- a bullet''))\<close>
  by (rule post_process_example)

end
